theory Spec2Isabelle
  imports Complex_Main "HOL-Library.List_Lexorder" "HOL-Library.Sublist"
begin

section \<open>Strings\<close>

text \<open>
  A JavaScript string is a sequence of UTF-16 code units; a code unit is modelled as
  a natural number. \<open>js\<close> turns a literal into its code units.
\<close>

type_synonym jsstring = "nat list"

abbreviation (input) js :: "string \<Rightarrow> jsstring" where
  "js s \<equiv> map of_char s"

text \<open>
  The characters \<open>String.prototype.trim\<close> strips and the regular-expression class
  \<open>\s\<close> matches: ECMAScript WhiteSpace and LineTerminator.
\<close>

definition is_ws :: "nat \<Rightarrow> bool" where
  "is_ws c \<longleftrightarrow>
     c \<in> {9, 10, 11, 12, 13, 32, 160, 5760, 8232, 8233, 8239, 8287, 12288, 65279}
     \<or> (8192 \<le> c \<and> c \<le> 8202)"

definition trim :: "jsstring \<Rightarrow> jsstring" where
  "trim s = rev (dropWhile is_ws (rev (dropWhile is_ws s)))"

text \<open>\<open>Array.prototype.join\<close> on strings.\<close>

fun join :: "jsstring \<Rightarrow> jsstring list \<Rightarrow> jsstring" where
  "join sep [] = []"
| "join sep [x] = x"
| "join sep (x # y # ys) = x @ sep @ join sep (y # ys)"

text \<open>The decimal digits of a length, as a template literal prints it.\<close>

function decimal :: "nat \<Rightarrow> jsstring" where
  "decimal n = (if n < 10 then [48 + n] else decimal (n div 10) @ [48 + n mod 10])"
  by pat_completeness auto
termination
  by (relation "measure id") auto

declare decimal.simps [simp del]

section \<open>The vector store (src/store.ts)\<close>

subsection \<open>Types\<close>

record Memory =
  mem_id :: int
  mem_text :: jsstring
  mem_createdAt :: jsstring
  mem_sessionId :: jsstring

record MemoryMatch =
  memory :: Memory
  similarity :: real

text \<open>A row of table \<open>memories\<close>: id, text, created_at, session_id.\<close>

record memories_row =
  row_id :: int
  row_text :: jsstring
  row_created_at :: jsstring
  row_session_id :: jsstring

text \<open>
  The state of a \<open>MemoryStore\<close>: the configured dimension, table \<open>memories\<close> in
  insertion order, the vec0 table \<open>memories_vec\<close> (rowid and embedding) in insertion
  order, and the AUTOINCREMENT counter of \<open>memories\<close> (the largest id ever assigned).
  Floating-point numbers are modelled as reals.
\<close>

record store =
  dimensions :: nat
  memories :: "memories_row list"
  memories_vec :: "(int \<times> real list) list"
  autoinc :: int

text \<open>A thrown \<open>Error\<close> with its message.\<close>

datatype error = Error jsstring

definition new_store :: "nat \<Rightarrow> store" where
  "new_store d = \<lparr>dimensions = d, memories = [], memories_vec = [], autoinc = 0\<rparr>"

subsection \<open>Helpers\<close>

definition l2ToCosine :: "real \<Rightarrow> real" where
  "l2ToCosine l2Distance = 1 - (l2Distance * l2Distance) / 2"

definition dimension_error :: "nat \<Rightarrow> nat \<Rightarrow> error" where
  "dimension_error expected actual =
     Error (js ''Expected '' @ decimal expected @ js ''-dim embedding, got '' @ decimal actual)"

text \<open>
  better-sqlite3 is not part of the repository. It binds a JavaScript string to a
  \<open>TEXT\<close> column as UTF-8 and reads the column back from UTF-8: a surrogate code unit
  that is not part of a pair comes back as U+FFFD, every other code unit as it went in.
\<close>

definition high_surrogate :: "nat \<Rightarrow> bool" where
  "high_surrogate c \<longleftrightarrow> 55296 \<le> c \<and> c \<le> 56319"

definition low_surrogate :: "nat \<Rightarrow> bool" where
  "low_surrogate c \<longleftrightarrow> 56320 \<le> c \<and> c \<le> 57343"

fun sqlite_text :: "jsstring \<Rightarrow> jsstring" where
  "sqlite_text [] = []"
| "sqlite_text [c] = [if high_surrogate c \<or> low_surrogate c then 65533 else c]"
| "sqlite_text (c # d # cs) =
     (if high_surrogate c \<and> low_surrogate d then c # d # sqlite_text cs
      else (if high_surrogate c \<or> low_surrogate c then 65533 else c) # sqlite_text (d # cs))"

subsection \<open>The index\<close>

text \<open>
  sqlite-vec is not part of the repository. Its vec0 table answers
  \<open>embedding MATCH :query AND k = :k\<close> with the \<open>k\<close> rows nearest to the query by L2
  distance, nearest first, each with its \<open>distance\<close>. \<open>knn\<close> is this answer
  computed on the exact distances; of rows at the same distance the later one comes
  first, as sqlite-vec answers for the rows of one chunk of the table.
\<close>

definition vec_distance_l2 :: "real list \<Rightarrow> real list \<Rightarrow> real" where
  "vec_distance_l2 a b = sqrt (\<Sum>(x, y) \<leftarrow> zip a b. (x - y) * (x - y))"

definition knn :: "(int \<times> real list) list \<Rightarrow> real list \<Rightarrow> nat \<Rightarrow> (int \<times> real) list" where
  "knn vt query k =
     take k (sort_key snd (map (\<lambda>(rowid, e). (rowid, vec_distance_l2 e query)) (rev vt)))"

text \<open>
  \<open>JOIN memories m ON m.id = v.rowid\<close>: \<open>id\<close> is the primary key, so a candidate
  joins with at most one row of \<open>memories\<close>; a candidate without one is dropped.
\<close>

definition join_memories :: "memories_row list \<Rightarrow> (int \<times> real) list \<Rightarrow> (real \<times> memories_row) list" where
  "join_memories ms cands =
     List.map_filter (\<lambda>(rowid, d). map_option (\<lambda>m. (d, m)) (find (\<lambda>m. row_id m = rowid) ms)) cands"

subsection \<open>Operations\<close>

text \<open>
  \<open>add\<close>: the dimension check, then one transaction inserting into both tables.
  AUTOINCREMENT assigns one more than the largest id ever used. The creation time
  (\<open>new Date().toISOString()\<close>) is a parameter. The three strings go into \<open>TEXT\<close>
  columns. The vec0 insert fails when the rowid is taken, and the transaction rolls
  back (the wording of that error is not modelled).
\<close>

definition next_id :: "store \<Rightarrow> int" where
  "next_id s = 1 + fold max (map row_id (memories s)) (autoinc s)"

definition add :: "store \<Rightarrow> jsstring \<Rightarrow> real list \<Rightarrow> jsstring \<Rightarrow> jsstring \<Rightarrow> (error + int) \<times> store" where
  "add s txt embedding sessionId now =
     (if length embedding \<noteq> dimensions s
      then (Inl (dimension_error (dimensions s) (length embedding)), s)
      else
        let rowid = next_id s in
        if rowid \<in> fst ` set (memories_vec s)
        then (Inl (Error (js ''UNIQUE constraint failed on memories_vec primary key'')), s)
        else (Inr rowid,
              s\<lparr>memories := memories s @
                    [\<lparr>row_id = rowid, row_text = sqlite_text txt, row_created_at = sqlite_text now,
                      row_session_id = sqlite_text sessionId\<rparr>],
                 memories_vec := memories_vec s @ [(rowid, embedding)],
                 autoinc := rowid\<rparr>))"

text \<open>The loop of \<open>search\<close> over the fetched rows, \<open>results\<close> being the accumulator.\<close>

fun search_loop :: "real \<Rightarrow> int \<Rightarrow> (real \<times> memories_row) list \<Rightarrow> MemoryMatch list \<Rightarrow> MemoryMatch list" where
  "search_loop threshold limit [] results = results"
| "search_loop threshold limit ((distance, row) # rows) results =
     (let sim = l2ToCosine distance in
      if sim < threshold then search_loop threshold limit rows results
      else
        let results' = results @
              [\<lparr>memory = \<lparr>mem_id = row_id row, mem_text = row_text row,
                           mem_createdAt = row_created_at row, mem_sessionId = row_session_id row\<rparr>,
                similarity = sim\<rparr>]
        in if int (length results') \<ge> limit then results'
           else search_loop threshold limit rows results')"

definition fetchLimit :: "int \<Rightarrow> nat" where
  "fetchLimit limit = nat (max (limit * 2) 20)"

definition fetch_rows :: "store \<Rightarrow> real list \<Rightarrow> int \<Rightarrow> (real \<times> memories_row) list" where
  "fetch_rows s embedding limit =
     join_memories (memories s) (knn (memories_vec s) embedding (fetchLimit limit))"

definition search :: "store \<Rightarrow> real list \<Rightarrow> real \<Rightarrow> int \<Rightarrow> error + MemoryMatch list" where
  "search s embedding threshold limit =
     (if length embedding \<noteq> dimensions s
      then Inl (dimension_error (dimensions s) (length embedding))
      else Inr (search_loop threshold limit (fetch_rows s embedding limit) []))"




text \<open>\<open>delete\<close>: both DELETE statements in one transaction.\<close>

definition delete :: "store \<Rightarrow> int \<Rightarrow> store" where
  "delete s i =
     s\<lparr>memories := filter (\<lambda>m. row_id m \<noteq> i) (memories s),
       memories_vec := filter (\<lambda>(rowid, e). rowid \<noteq> i) (memories_vec s)\<rparr>"

text \<open>
  \<open>list\<close>: all rows, \<open>ORDER BY created_at DESC\<close>; rows with the same \<open>created_at\<close>
  stay in insertion order.
\<close>

definition list_memories :: "store \<Rightarrow> Memory list" where
  "list_memories s =
     map (\<lambda>row. \<lparr>mem_id = row_id row, mem_text = row_text row,
                  mem_createdAt = row_created_at row, mem_sessionId = row_session_id row\<rparr>)
         (rev (sort_key row_created_at (rev (memories s))))"

definition count :: "store \<Rightarrow> nat" where
  "count s = length (memories s)"

subsection \<open>Cosine similarity of vectors\<close>

definition dot :: "real list \<Rightarrow> real list \<Rightarrow> real" where
  "dot a b = (\<Sum>(x, y) \<leftarrow> zip a b. x * y)"

definition norm2 :: "real list \<Rightarrow> real" where
  "norm2 a = sqrt (dot a a)"

definition cosine_similarity :: "real list \<Rightarrow> real list \<Rightarrow> real" where
  "cosine_similarity a b = dot a b / (norm2 a * norm2 b)"

subsection \<open>Sequences of store operations\<close>

datatype store_op = Add jsstring "real list" jsstring jsstring | Delete int

fun apply_op :: "store \<Rightarrow> store_op \<Rightarrow> store" where
  "apply_op s (Add txt embedding sessionId now) = snd (add s txt embedding sessionId now)"
| "apply_op s (Delete i) = delete s i"

definition run_ops :: "nat \<Rightarrow> store_op list \<Rightarrow> store" where
  "run_ops d ops = foldl apply_op (new_store d) ops"


text \<open>The match \<open>search\<close> builds from a fetched row, and the test it keeps a row by.\<close>

definition to_match :: "real \<times> memories_row \<Rightarrow> MemoryMatch" where
  "to_match r = \<lparr>memory = \<lparr>mem_id = row_id (snd r), mem_text = row_text (snd r),
                           mem_createdAt = row_created_at (snd r), mem_sessionId = row_session_id (snd r)\<rparr>,
                similarity = l2ToCosine (fst r)\<rparr>"

definition passes :: "real \<Rightarrow> real \<times> memories_row \<Rightarrow> bool" where
  "passes t r \<longleftrightarrow> \<not> l2ToCosine (fst r) < t"

text \<open>A store holding one memory, made by one \<open>add\<close> on an empty store of dimension 1.\<close>

definition one_memory_store :: store where
  "one_memory_store =
     snd (add (new_store 1) (js ''fact'') [1] (js ''s1'') (js ''2025-01-01T00:00:00.000Z''))"

text \<open>A store holding two memories, at distances 0 and 2 from the query \<open>[1]\<close>.\<close>

definition two_memory_store :: store where
  "two_memory_store =
     run_ops 1 [Add (js ''near'') [1] (js ''s1'') (js ''2025-01-01T00:00:00.000Z''),
                Add (js ''far'') [-1] (js ''s1'') (js ''2025-01-02T00:00:00.000Z'')]"


text \<open>No id in table \<open>memories\<close> exceeds the AUTOINCREMENT counter.\<close>

definition ids_bounded :: "store \<Rightarrow> bool" where
  "ids_bounded s \<longleftrightarrow> (\<forall>m \<in> set (memories s). row_id m \<le> autoinc s)"

section \<open>Properties of the distance conversion\<close>

lemma l2ToCosine_eq: "l2ToCosine d = 1 - d\<^sup>2 / 2"
  by (simp add: l2ToCosine_def power2_eq_square)

lemma sum_sq_expand:
  "length a = length b \<Longrightarrow>
   (\<Sum>(x, y) \<leftarrow> zip a b. (x - y) * (x - y)) = dot a a - 2 * dot a b + dot b b"
  unfolding dot_def
  by (induction a b rule: list_induct2) (auto simp: algebra_simps)

lemma sum_sq_nonneg: "(0::real) \<le> (\<Sum>(x, y) \<leftarrow> zip a b. (x - y) * (x - y))"
  by (rule sum_list_nonneg) auto

lemma vec_distance_l2_nonneg: "0 \<le> vec_distance_l2 a b"
  by (simp add: vec_distance_l2_def sum_sq_nonneg)

lemma dot_self_nonneg: "0 \<le> dot a a"
  unfolding dot_def by (induction a) auto

lemma unit_vectors_cosine:
  assumes "length a = length b" and "norm2 a = 1" and "norm2 b = 1"
  shows "(vec_distance_l2 a b)\<^sup>2 = 2 - 2 * cosine_similarity a b"
    and "l2ToCosine (vec_distance_l2 a b) = cosine_similarity a b"
proof -
  have aa: "dot a a = 1" and bb: "dot b b = 1"
    using assms dot_self_nonneg by (auto simp: norm2_def)
  have cs: "cosine_similarity a b = dot a b" using assms by (simp add: cosine_similarity_def)
  have "(vec_distance_l2 a b)\<^sup>2 = (\<Sum>(x, y) \<leftarrow> zip a b. (x - y) * (x - y))"
    unfolding vec_distance_l2_def using sum_sq_nonneg[of a b] by (rule real_sqrt_pow2)
  then have "(vec_distance_l2 a b)\<^sup>2 = dot a a - 2 * dot a b + dot b b"
    using assms sum_sq_expand[of a b] by simp
  then show sq: "(vec_distance_l2 a b)\<^sup>2 = 2 - 2 * cosine_similarity a b"
    using aa bb cs by simp
  show "l2ToCosine (vec_distance_l2 a b) = cosine_similarity a b"
    using sq by (simp add: l2ToCosine_eq field_simps)
qed

text \<open>
  C2. The conversion computes \<open>1 - d\<^sup>2 / 2\<close> for every distance \<open>d\<close>; for two
  vectors of the same length and of norm 1 at L2 distance \<open>d\<close>, the squared distance
  is \<open>2 - 2 cos(a, b)\<close> and the converted value is the cosine similarity of the two.
\<close>

theorem l2ToCosine_is_cosine:
  "l2ToCosine d = 1 - d\<^sup>2 / 2 \<and>
   (length a = length b \<and> norm2 a = 1 \<and> norm2 b = 1 \<and> vec_distance_l2 a b = d
      \<longrightarrow> (vec_distance_l2 a b)\<^sup>2 = 2 - 2 * cosine_similarity a b
        \<and> l2ToCosine d = cosine_similarity a b)"
  using unit_vectors_cosine[of a b] by (auto simp: l2ToCosine_eq)

theorem l2ToCosine_is_cosine_witness:
  "l2ToCosine (sqrt 2) = 1 - (sqrt 2)\<^sup>2 / 2 \<and>
   length [1, 0 :: real] = length [0, 1 :: real] \<and> norm2 [1, 0] = 1 \<and> norm2 [0, 1] = 1 \<and>
   vec_distance_l2 [1, 0] [0, 1] = sqrt 2 \<and>
   (vec_distance_l2 [1, 0] [0, 1])\<^sup>2 = 2 - 2 * cosine_similarity [1, 0] [0, 1] \<and>
   l2ToCosine (sqrt 2) = cosine_similarity [1, 0] [0, 1]"
proof -
  have h: "length [1, 0 :: real] = length [0, 1 :: real] \<and> norm2 [1, 0] = 1 \<and> norm2 [0, 1] = 1 \<and>
   vec_distance_l2 [1, 0] [0, 1] = sqrt 2"
    by (simp add: norm2_def dot_def vec_distance_l2_def)
  show ?thesis using h l2ToCosine_is_cosine[of "sqrt 2" "[1, 0]" "[0, 1]"] by blast
qed

section \<open>Properties of search\<close>

lemma search_loop_eq:
  "search_loop t k rows acc =
     acc @ take (nat (max 1 (k - int (length acc)))) (map to_match (filter (passes t) rows))"
proof (induction rows arbitrary: acc)
  case Nil
  then show ?case by simp
next
  case (Cons r rows)
  obtain d row where r: "r = (d, row)" by (cases r)
  show ?case
  proof (cases "l2ToCosine d < t")
    case True
    then have "\<not> passes t r" using r by (simp add: passes_def)
    then show ?thesis using Cons r True by simp
  next
    case False
    then have p: "passes t r" using r by (simp add: passes_def)
    let ?m = "to_match (d, row)"
    show ?thesis
    proof (cases "int (length acc) + 1 \<ge> k")
      case True
      then have "nat (max 1 (k - int (length acc))) = Suc 0" by auto
      then show ?thesis using r False True p by (simp add: to_match_def Let_def)
    next
      case ge: False
      define n where "n = nat (k - int (length acc) - 1)"
      have n: "nat (max 1 (k - int (length acc))) = Suc n"
        unfolding n_def using ge by arith
      have n': "nat (max 1 (k - int (length (acc @ [?m])))) = n"
        unfolding n_def using ge by (simp add: max_def)
      have "search_loop t k (r # rows) acc = search_loop t k rows (acc @ [?m])"
        using r False ge by (simp add: to_match_def Let_def)
      also have "\<dots> = (acc @ [?m]) @ take n (map to_match (filter (passes t) rows))"
        using Cons.IH[of "acc @ [?m]"] n' by simp
      finally show ?thesis using n r p by simp
    qed
  qed
qed

lemma search_Inr:
  "length q = dimensions s \<Longrightarrow>
   search s q t k = Inr (take (nat (max 1 k)) (map to_match (filter (passes t) (fetch_rows s q k))))"
  by (simp add: search_def search_loop_eq)

lemma knn_sorted: "sorted (map snd (knn vt q k))"
proof -
  have "sorted (map snd (sort_key snd (map (\<lambda>(rowid, e). (rowid, vec_distance_l2 e q)) (rev vt))))"
    by (rule sorted_sort_key)
  then show ?thesis
    unfolding knn_def by (simp add: take_map[symmetric])
qed

lemma knn_set:
  "set (knn vt q k) \<subseteq> (\<lambda>(rowid, e). (rowid, vec_distance_l2 e q)) ` set vt"
proof -
  have "set (knn vt q k) \<subseteq> set (sort_key snd (map (\<lambda>(rowid, e). (rowid, vec_distance_l2 e q)) (rev vt)))"
    unfolding knn_def by (rule set_take_subset)
  then show ?thesis by simp
qed

lemma join_memories_Cons:
  "join_memories ms ((rowid, d) # cands) =
     (case find (\<lambda>m. row_id m = rowid) ms of None \<Rightarrow> join_memories ms cands
      | Some m \<Rightarrow> (d, m) # join_memories ms cands)"
  by (simp add: join_memories_def split: option.splits)

lemma join_memories_Nil: "join_memories ms [] = []"
  by (simp add: join_memories_def)

lemma join_memories_set:
  "(d, m) \<in> set (join_memories ms cands) \<Longrightarrow> (row_id m, d) \<in> set cands \<and> m \<in> set ms"
proof (induction cands)
  case Nil
  then show ?case by (simp add: join_memories_Nil)
next
  case (Cons c cands)
  obtain rowid d' where c: "c = (rowid, d')" by (cases c)
  show ?case
  proof (cases "find (\<lambda>m. row_id m = rowid) ms")
    case None
    then show ?thesis using Cons c by (auto simp: join_memories_Cons)
  next
    case (Some m')
    then have "row_id m' = rowid" "m' \<in> set ms"
      by (auto simp: find_Some_iff)
    then show ?thesis using Cons c Some by (auto simp: join_memories_Cons)
  qed
qed

lemma join_memories_sorted:
  "sorted (map snd cands) \<Longrightarrow> sorted (map fst (join_memories ms cands))"
proof (induction cands)
  case Nil
  then show ?case by (simp add: join_memories_Nil)
next
  case (Cons c cands)
  obtain rowid d where c: "c = (rowid, d)" by (cases c)
  have le: "\<forall>x \<in> set (join_memories ms cands). d \<le> fst x"
  proof
    fix x assume "x \<in> set (join_memories ms cands)"
    then have "(row_id (snd x), fst x) \<in> set cands"
      using join_memories_set[of "fst x" "snd x" ms cands] by simp
    then have "fst x \<in> set (map snd cands)" by force
    then show "d \<le> fst x" using Cons.prems c by auto
  qed
  show ?case using Cons c le by (auto simp: join_memories_Cons split: option.splits)
qed

lemma fetch_rows_sorted: "sorted (map fst (fetch_rows s q k))"
  unfolding fetch_rows_def by (rule join_memories_sorted) (rule knn_sorted)

lemma fetch_rows_source:
  assumes "(d, m) \<in> set (fetch_rows s q k)"
  shows "m \<in> set (memories s) \<and> (\<exists>e. (row_id m, e) \<in> set (memories_vec s) \<and> d = vec_distance_l2 e q)"
proof -
  have "(row_id m, d) \<in> set (knn (memories_vec s) q (fetchLimit k))" and m: "m \<in> set (memories s)"
    using assms join_memories_set unfolding fetch_rows_def by blast+
  then have "(row_id m, d) \<in> (\<lambda>(rowid, e). (rowid, vec_distance_l2 e q)) ` set (memories_vec s)"
    using knn_set by blast
  then show ?thesis using m by auto
qed

lemma fetch_rows_nonneg: "r \<in> set (fetch_rows s q k) \<Longrightarrow> 0 \<le> fst r"
  using fetch_rows_source[of "fst r" "snd r" s q k] vec_distance_l2_nonneg by auto

lemma l2ToCosine_antimono: "0 \<le> a \<Longrightarrow> a \<le> b \<Longrightarrow> l2ToCosine b \<le> l2ToCosine a"
  unfolding l2ToCosine_def by (simp add: mult_mono)

lemma sims_descending:
  "sorted (map fst rows) \<Longrightarrow> \<forall>r \<in> set rows. 0 \<le> fst r \<Longrightarrow>
   sorted_wrt (\<lambda>a b. similarity b \<le> similarity a) (map to_match rows)"
proof (induction rows)
  case Nil
  then show ?case by simp
next
  case (Cons r rows)
  then show ?case
    by (auto simp: to_match_def intro: l2ToCosine_antimono)
qed

lemma filter_sorted_fst:
  "sorted (map fst rows) \<Longrightarrow> sorted (map fst (filter P rows))"
  by (induction rows) auto

lemma filter_is_takeWhile:
  "sorted (map fst rows) \<Longrightarrow> \<forall>r \<in> set rows. 0 \<le> fst r \<Longrightarrow>
   filter (passes t) rows = takeWhile (passes t) rows"
proof (induction rows)
  case Nil
  then show ?case by simp
next
  case (Cons r rows)
  show ?case
  proof (cases "passes t r")
    case True
    then show ?thesis using Cons by simp
  next
    case False
    have "\<not> passes t x" if "x \<in> set rows" for x
    proof -
      have "l2ToCosine (fst x) \<le> l2ToCosine (fst r)"
        using Cons.prems that by (intro l2ToCosine_antimono) auto
      then show ?thesis using False by (simp add: passes_def)
    qed
    then have "filter (passes t) rows = []" by (simp add: filter_empty_conv)
    then show ?thesis using False by simp
  qed
qed



lemma search_length_le:
  "search s q t k = Inr r \<Longrightarrow> length r \<le> nat (max 1 k)"
  by (auto simp: search_def search_loop_eq split: if_splits)

lemma search_above_threshold:
  "search s q t k = Inr r \<Longrightarrow> m \<in> set r \<Longrightarrow> t \<le> similarity m"
proof -
  assume a: "search s q t k = Inr r" "m \<in> set r"
  then have "m \<in> set (map to_match (filter (passes t) (fetch_rows s q k)))"
    by (auto simp: search_def search_loop_eq split: if_splits dest: in_set_takeD)
  then show ?thesis by (auto simp: passes_def to_match_def)
qed

lemma search_sorted:
  assumes "search s q t k = Inr r"
  shows "sorted_wrt (\<lambda>a b. similarity b \<le> similarity a) r"
proof -
  let ?rows = "filter (passes t) (fetch_rows s q k)"
  have r: "r = take (nat (max 1 k)) (map to_match ?rows)"
    using assms by (auto simp: search_def search_loop_eq split: if_splits)
  have "sorted (map fst ?rows)" by (rule filter_sorted_fst) (rule fetch_rows_sorted)
  moreover have "\<forall>x \<in> set ?rows. 0 \<le> fst x" using fetch_rows_nonneg by auto
  ultimately have "sorted_wrt (\<lambda>a b. similarity b \<le> similarity a) (map to_match ?rows)"
    by (rule sims_descending)
  then show ?thesis unfolding r by (rule sorted_wrt_take)
qed

lemma search_results:
  "search s q t k = Inr r \<Longrightarrow>
   length q = dimensions s \<and> r = take (nat (max 1 k)) (map to_match (takeWhile (passes t) (fetch_rows s q k)))"
  using filter_is_takeWhile[OF fetch_rows_sorted, of s q k t] fetch_rows_nonneg
  by (auto simp: search_def search_loop_eq split: if_splits)

lemma search_result_source:
  assumes "search s q t k = Inr r" and "m \<in> set r"
  shows "\<exists>row e. row \<in> set (memories s) \<and> (row_id row, e) \<in> set (memories_vec s)
           \<and> mem_id (memory m) = row_id row \<and> mem_text (memory m) = row_text row
           \<and> similarity m = l2ToCosine (vec_distance_l2 e q)"
proof -
  have "m \<in> set (map to_match (takeWhile (passes t) (fetch_rows s q k)))"
    using search_results[OF assms(1)] assms(2) by (auto dest: in_set_takeD)
  then obtain x where x: "x \<in> set (fetch_rows s q k)" and m: "m = to_match x"
    by (auto dest: set_takeWhileD)
  obtain e where "snd x \<in> set (memories s)" "(row_id (snd x), e) \<in> set (memories_vec s)"
    "fst x = vec_distance_l2 e q"
    using fetch_rows_source[of "fst x" "snd x" s q k] x by auto
  then show ?thesis using m by (auto simp: to_match_def)
qed

lemma one_memory_store_eq:
  "one_memory_store = \<lparr>dimensions = 1,
      memories = [\<lparr>row_id = 1, row_text = js ''fact'', row_created_at = js ''2025-01-01T00:00:00.000Z'',
                   row_session_id = js ''s1''\<rparr>],
      memories_vec = [(1, [1])], autoinc = 1\<rparr>"
  by (simp add: one_memory_store_def add_def new_store_def next_id_def
      high_surrogate_def low_surrogate_def)

lemma two_memory_store_eq:
  "two_memory_store = \<lparr>dimensions = 1,
      memories = [\<lparr>row_id = 1, row_text = js ''near'', row_created_at = js ''2025-01-01T00:00:00.000Z'',
                   row_session_id = js ''s1''\<rparr>,
                  \<lparr>row_id = 2, row_text = js ''far'', row_created_at = js ''2025-01-02T00:00:00.000Z'',
                   row_session_id = js ''s1''\<rparr>],
      memories_vec = [(1, [1]), (2, [-1])], autoinc = 2\<rparr>"
  by (simp add: two_memory_store_def run_ops_def add_def new_store_def next_id_def
      high_surrogate_def low_surrogate_def)

lemma two_memory_fetch:
  "fetch_rows two_memory_store [1] 5 =
     [(0, \<lparr>row_id = 1, row_text = js ''near'', row_created_at = js ''2025-01-01T00:00:00.000Z'',
                   row_session_id = js ''s1''\<rparr>),
      (2, \<lparr>row_id = 2, row_text = js ''far'', row_created_at = js ''2025-01-02T00:00:00.000Z'',
                   row_session_id = js ''s1''\<rparr>)]"
  by (simp add: two_memory_store_eq fetch_rows_def knn_def fetchLimit_def
      join_memories_def vec_distance_l2_def)


lemma two_memory_search_low:
  "search two_memory_store [1] (-1) 5 =
     Inr [\<lparr>memory = \<lparr>mem_id = 1, mem_text = js ''near'', mem_createdAt = js ''2025-01-01T00:00:00.000Z'',
                      mem_sessionId = js ''s1''\<rparr>, similarity = 1\<rparr>,
          \<lparr>memory = \<lparr>mem_id = 2, mem_text = js ''far'', mem_createdAt = js ''2025-01-02T00:00:00.000Z'',
                      mem_sessionId = js ''s1''\<rparr>, similarity = -1\<rparr>]"
  by (simp add: search_def two_memory_fetch l2ToCosine_def) (simp add: two_memory_store_eq)

text \<open>
  C1. \<open>search\<close> is to return at most \<open>limit\<close> results. The loop tests the length
  only after it has pushed a result, so with \<open>limit = 0\<close> a store holding one memory
  that passes the threshold answers with that one result.
\<close>

theorem search_limit_zero:
  "search one_memory_store [1] 0 0 =
     Inr [\<lparr>memory = \<lparr>mem_id = 1, mem_text = js ''fact'',
                      mem_createdAt = js ''2025-01-01T00:00:00.000Z'', mem_sessionId = js ''s1''\<rparr>,
           similarity = 1\<rparr>]"
  by (simp add: one_memory_store_eq search_def fetch_rows_def knn_def fetchLimit_def
      join_memories_def vec_distance_l2_def l2ToCosine_def)










lemma decimal_digits: "c \<in> set (decimal n) \<Longrightarrow> 48 \<le> c \<and> c \<le> 57"
proof (induction n rule: decimal.induct)
  case (1 n)
  show ?case
  proof (cases "n < 10")
    case True
    then show ?thesis using "1.prems" by (subst (asm) decimal.simps) auto
  next
    case False
    have "n mod 10 < 10" by simp
    then have "48 \<le> 48 + n mod 10 \<and> 48 + n mod 10 \<le> 57" by linarith
    then show ?thesis using "1.prems" "1.IH" False by (subst (asm) decimal.simps) auto
  qed
qed

lemma decimal_value: "foldl (\<lambda>a c. 10 * a + (c - 48)) 0 (decimal n) = n"
proof (induction n rule: decimal.induct)
  case (1 n)
  show ?case
  proof (cases "n < 10")
    case True
    then show ?thesis by (subst decimal.simps) simp
  next
    case False
    then show ?thesis using "1.IH" by (subst decimal.simps) simp
  qed
qed

lemma decimal_inj:
  assumes "decimal a = decimal b"
  shows "a = b"
proof -
  have "a = foldl (\<lambda>a c. 10 * a + (c - 48)) 0 (decimal a)" by (rule decimal_value[symmetric])
  also have "\<dots> = foldl (\<lambda>a c. 10 * a + (c - 48)) 0 (decimal b)" unfolding assms ..
  also have "\<dots> = b" by (rule decimal_value)
  finally show ?thesis .
qed

lemma decimal_prefix:
  "takeWhile (\<lambda>c. 48 \<le> c \<and> c \<le> 57) (decimal n @ 45 # rest) = decimal n"
  using decimal_digits[of _ n] by (simp add: takeWhile_append2)

lemma dimension_error_inj:
  assumes "dimension_error d n = dimension_error d' n'"
  shows "d = d' \<and> n = n'"
proof -
  let ?S = "js ''dim embedding, got ''"
  have e: "decimal d @ 45 # ?S @ decimal n = decimal d' @ 45 # ?S @ decimal n'"
    using assms by (simp add: dimension_error_def)
  have "takeWhile (\<lambda>c. 48 \<le> c \<and> c \<le> 57) (decimal d @ 45 # ?S @ decimal n)
      = takeWhile (\<lambda>c. 48 \<le> c \<and> c \<le> 57) (decimal d' @ 45 # ?S @ decimal n')"
    using e by simp
  then have dd: "decimal d = decimal d'" unfolding decimal_prefix .
  then have "decimal n = decimal n'" using e by simp
  then show ?thesis using dd decimal_inj by blast
qed

text \<open>
  C6. With an embedding whose length differs from the store's dimension, \<open>add\<close>
  fails with the error whose message gives the expected and the actual length (no other
  pair of lengths has that message), and leaves the store as it was, so \<open>count\<close> is
  unchanged; \<open>search\<close> fails with the same error.
\<close>

theorem dimension_mismatch:
  "length e \<noteq> dimensions s \<Longrightarrow>
     add s txt e sid now = (Inl (dimension_error (dimensions s) (length e)), s)
   \<and> count (snd (add s txt e sid now)) = count s
   \<and> search s e t k = Inl (dimension_error (dimensions s) (length e))
   \<and> dimension_error (dimensions s) (length e) =
       Error (js ''Expected '' @ decimal (dimensions s) @ js ''-dim embedding, got '' @ decimal (length e))
   \<and> (dimension_error (dimensions s) (length e) = dimension_error d' n' \<longrightarrow>
        d' = dimensions s \<and> n' = length e)"
  using dimension_error_inj[of "dimensions s" "length e" d' n']
  by (auto simp: add_def search_def dimension_error_def)

theorem dimension_mismatch_witness:
  "length [1, 2, 3 :: real] \<noteq> dimensions (new_store 4)
   \<and> add (new_store 4) (js ''bad'') [1, 2, 3] (js ''s1'') (js ''now'')
       = (Inl (Error (js ''Expected 4-dim embedding, got 3'')), new_store 4)
   \<and> count (snd (add (new_store 4) (js ''bad'') [1, 2, 3] (js ''s1'') (js ''now''))) = 0
   \<and> search (new_store 4) [1, 2, 3] (1/2) 10 = Inl (Error (js ''Expected 4-dim embedding, got 3''))"
proof -
  have h: "length [1, 2, 3 :: real] \<noteq> dimensions (new_store 4)" by (simp add: new_store_def)
  have d4: "decimal 4 = js ''4''" and d3: "decimal (Suc (Suc (Suc 0))) = js ''3''"
    by (simp_all add: decimal.simps)
  have c: "count (new_store 4) = 0" by (simp add: count_def new_store_def)
  have "length [1, 2, 3 :: real] = 3" "dimensions (new_store 4) = 4" by (simp_all add: new_store_def)
  then show ?thesis
    using h dimension_mismatch[OF h, of "js ''bad''" "js ''s1''" "js ''now''" "1/2" 10] d4 d3 c
    by simp
qed


section \<open>Properties of delete and of sequences of operations\<close>

lemma list_memories_ids: "mem_id ` set (list_memories s) = row_id ` set (memories s)"
  by (auto simp: list_memories_def image_iff)

lemma list_memories_texts: "mem_text ` set (list_memories s) = row_text ` set (memories s)"
  by (auto simp: list_memories_def image_iff)

lemma search_result_row:
  "search s q t k = Inr r \<Longrightarrow> m \<in> set r \<Longrightarrow>
   \<exists>row \<in> set (memories s). mem_id (memory m) = row_id row \<and> mem_text (memory m) = row_text row"
  using search_result_source[of s q t k r m] by blast

lemma delete_keeps_others:
  "i \<notin> row_id ` set (memories s) \<Longrightarrow> memories (delete s i) = memories s"
  by (auto simp: delete_def filter_id_conv)

lemma fold_max_ge: "(a::int) \<le> fold max xs a"
  by (induction xs arbitrary: a) (auto intro: order_trans[OF max.cobounded2])

lemma fold_max_ge_elem: "x \<in> set xs \<Longrightarrow> (x::int) \<le> fold max xs a"
proof (induction xs arbitrary: a)
  case Nil
  then show ?case by simp
next
  case (Cons y ys)
  show ?case
  proof (cases "x = y")
    case True
    have "x \<le> max y a" using True by simp
    also have "\<dots> \<le> fold max ys (max y a)" by (rule fold_max_ge)
    finally show ?thesis by simp
  next
    case False
    then show ?thesis using Cons by simp
  qed
qed

lemma next_id_fresh: "autoinc s < next_id s" "m \<in> set (memories s) \<Longrightarrow> row_id m < next_id s"
  using fold_max_ge[of "autoinc s" "map row_id (memories s)"]
    fold_max_ge_elem[of "row_id m" "map row_id (memories s)" "autoinc s"]
  by (auto simp: next_id_def)

lemma apply_op_bounded: "ids_bounded s \<Longrightarrow> ids_bounded (apply_op s op)"
proof (cases op)
  case (Add tx e sid now)
  assume b: "ids_bounded s"
  show ?thesis using b next_id_fresh(1)[of s] unfolding Add ids_bounded_def
    by (auto simp: add_def Let_def)
next
  case (Delete i)
  assume "ids_bounded s"
  then show ?thesis unfolding Delete ids_bounded_def by (auto simp: delete_def)
qed

lemma foldl_apply_op_bounded: "ids_bounded s \<Longrightarrow> ids_bounded (foldl apply_op s ops)"
  by (induction ops arbitrary: s) (auto intro: apply_op_bounded)

lemma run_ops_bounded: "ids_bounded (run_ops d ops)"
  unfolding run_ops_def by (rule foldl_apply_op_bounded) (simp add: ids_bounded_def new_store_def)

lemma apply_op_absent:
  assumes "i \<le> autoinc s" and "i \<notin> row_id ` set (memories s)"
  shows "i \<le> autoinc (apply_op s op) \<and> i \<notin> row_id ` set (memories (apply_op s op))"
proof (cases op)
  case (Add tx e sid now)
  show ?thesis using assms next_id_fresh(1)[of s] unfolding Add
    by (auto simp: add_def Let_def)
next
  case (Delete j)
  show ?thesis using assms unfolding Delete by (auto simp: delete_def)
qed

lemma foldl_apply_op_absent:
  "i \<le> autoinc s \<Longrightarrow> i \<notin> row_id ` set (memories s) \<Longrightarrow>
   i \<notin> row_id ` set (memories (foldl apply_op s ops))"
proof (induction ops arbitrary: s)
  case Nil
  then show ?case by simp
next
  case (Cons op ops)
  then show ?case using apply_op_absent[of i s op] by simp
qed

lemma deleted_stays_deleted:
  assumes "i \<in> row_id ` set (memories (run_ops d ops))"
  shows "i \<notin> row_id ` set (memories (foldl apply_op (delete (run_ops d ops) i) ops'))"
proof -
  let ?s = "run_ops d ops"
  have "i \<le> autoinc ?s" using assms run_ops_bounded[of d ops] by (auto simp: ids_bounded_def)
  then have "i \<le> autoinc (delete ?s i)" by (simp add: delete_def)
  moreover have "i \<notin> row_id ` set (memories (delete ?s i))" by (auto simp: delete_def)
  ultimately show ?thesis by (rule foldl_apply_op_absent)
qed

text \<open>
  C8. \<open>delete s i\<close> removes the rows with id \<open>i\<close> from both tables; after it no
  memory with id \<open>i\<close> is in the output of \<open>list\<close> or in a result of \<open>search\<close>; when the store was reached by operations from an empty one
  and held the id, this stays so after any further operations (ids are not reused).
  When no memory has the id, \<open>delete\<close> leaves \<open>count\<close> and \<open>list\<close> as they were, and
  when the index has no such row either, the store is unchanged. \<open>delete\<close> has no
  failing branch.
\<close>

theorem delete_removes:
  "i \<notin> mem_id ` set (list_memories (delete s i))
   \<and> (\<forall>q t k r. search (delete s i) q t k = Inr r \<longrightarrow> i \<notin> (\<lambda>m. mem_id (memory m)) ` set r)
   \<and> (i \<notin> row_id ` set (memories s) \<longrightarrow>
        count (delete s i) = count s \<and> list_memories (delete s i) = list_memories s)
   \<and> (i \<notin> row_id ` set (memories s) \<and> i \<notin> fst ` set (memories_vec s) \<longrightarrow> delete s i = s)
   \<and> (\<forall>d ops ops'. s = run_ops d ops \<and> i \<in> row_id ` set (memories s) \<longrightarrow>
        i \<notin> mem_id ` set (list_memories (foldl apply_op (delete s i) ops'))
        \<and> (\<forall>q t k r. search (foldl apply_op (delete s i) ops') q t k = Inr r \<longrightarrow>
              i \<notin> (\<lambda>m. mem_id (memory m)) ` set r))
   \<and> i \<notin> row_id ` set (memories (delete s i))
   \<and> i \<notin> fst ` set (memories_vec (delete s i))"
proof (intro conjI allI impI)
  have ids: "i \<notin> row_id ` set (memories (delete s i))" by (auto simp: delete_def)
  then show "i \<notin> mem_id ` set (list_memories (delete s i))" by (simp add: list_memories_ids)
  show "i \<notin> (\<lambda>m. mem_id (memory m)) ` set r" if "search (delete s i) q t k = Inr r" for q t k r
    using search_result_row[OF that] ids by force
next
  assume a: "i \<notin> row_id ` set (memories s)"
  show "count (delete s i) = count s" using delete_keeps_others[OF a] by (simp add: count_def)
  show "list_memories (delete s i) = list_memories s"
    using delete_keeps_others[OF a] by (simp add: list_memories_def)
next
  assume a: "i \<notin> row_id ` set (memories s) \<and> i \<notin> fst ` set (memories_vec s)"
  then have "filter (\<lambda>m. row_id m \<noteq> i) (memories s) = memories s"
    and "filter (\<lambda>(rowid, e). rowid \<noteq> i) (memories_vec s) = memories_vec s"
    by (force simp: filter_id_conv)+
  then show "delete s i = s" by (simp add: delete_def)
next
  fix d ops ops'
  assume a: "s = run_ops d ops \<and> i \<in> row_id ` set (memories s)"
  then have s: "s = run_ops d ops" and m: "i \<in> row_id ` set (memories (run_ops d ops))"
    by auto
  have ids: "i \<notin> row_id ` set (memories (foldl apply_op (delete s i) ops'))"
    unfolding s by (rule deleted_stays_deleted[OF m])
  then show "i \<notin> mem_id ` set (list_memories (foldl apply_op (delete s i) ops'))"
    by (simp add: list_memories_ids)
  show "i \<notin> (\<lambda>m. mem_id (memory m)) ` set r"
    if "search (foldl apply_op (delete s i) ops') q t k = Inr r" for q t k r
    using search_result_row[OF that] ids by force
next
  show "i \<notin> row_id ` set (memories (delete s i))" by (auto simp: delete_def)
  show "i \<notin> fst ` set (memories_vec (delete s i))" by (auto simp: delete_def)
qed

theorem delete_removes_witness:
  "2 \<notin> mem_id ` set (list_memories (delete two_memory_store 2))
   \<and> search (delete two_memory_store 2) [1] (-1) 5 =
       Inr [\<lparr>memory = \<lparr>mem_id = 1, mem_text = js ''near'', mem_createdAt = js ''2025-01-01T00:00:00.000Z'',
                      mem_sessionId = js ''s1''\<rparr>, similarity = 1\<rparr>]
   \<and> 2 \<in> row_id ` set (memories two_memory_store)
   \<and> 2 \<notin> mem_id ` set (list_memories (foldl apply_op (delete two_memory_store 2)
              [Add (js ''later'') [1] (js ''s2'') (js ''2025-01-03T00:00:00.000Z'')]))
   \<and> 7 \<notin> row_id ` set (memories two_memory_store) \<and> 7 \<notin> fst ` set (memories_vec two_memory_store)
   \<and> count (delete two_memory_store 7) = 2
   \<and> delete two_memory_store 7 = two_memory_store"
proof -
  have h: "7 \<notin> row_id ` set (memories two_memory_store) \<and> 7 \<notin> fst ` set (memories_vec two_memory_store)"
    by (simp add: two_memory_store_eq)
  have h2: "two_memory_store = run_ops 1 [Add (js ''near'') [1] (js ''s1'') (js ''2025-01-01T00:00:00.000Z''),
                Add (js ''far'') [-1] (js ''s1'') (js ''2025-01-02T00:00:00.000Z'')]
             \<and> 2 \<in> row_id ` set (memories two_memory_store)"
  proof
    show "2 \<in> row_id ` set (memories two_memory_store)" by (simp add: two_memory_store_eq)
  qed (simp add: two_memory_store_def)
  have c: "count two_memory_store = 2" by (simp add: two_memory_store_eq count_def)
  have s: "search (delete two_memory_store 2) [1] (-1) 5 =
       Inr [\<lparr>memory = \<lparr>mem_id = 1, mem_text = js ''near'', mem_createdAt = js ''2025-01-01T00:00:00.000Z'',
                      mem_sessionId = js ''s1''\<rparr>, similarity = 1\<rparr>]"
    by (simp add: two_memory_store_eq delete_def search_def fetch_rows_def knn_def fetchLimit_def
      join_memories_def vec_distance_l2_def l2ToCosine_def)
  have a: "2 \<notin> mem_id ` set (list_memories (delete two_memory_store 2))"
    using delete_removes[of 2 two_memory_store] by (rule conjunct1)
  have "\<forall>d ops ops'. two_memory_store = run_ops d ops \<and> 2 \<in> row_id ` set (memories two_memory_store) \<longrightarrow>
        2 \<notin> mem_id ` set (list_memories (foldl apply_op (delete two_memory_store 2) ops'))
        \<and> (\<forall>q t k r. search (foldl apply_op (delete two_memory_store 2) ops') q t k = Inr r \<longrightarrow>
              2 \<notin> (\<lambda>m. mem_id (memory m)) ` set r)"
    using delete_removes[of 2 two_memory_store] by (elim conjE)
  then have b: "2 \<notin> mem_id ` set (list_memories (foldl apply_op (delete two_memory_store 2)
              [Add (js ''later'') [1] (js ''s2'') (js ''2025-01-03T00:00:00.000Z'')]))"
    using h2 by blast
  have "count (delete two_memory_store 7) = count two_memory_store"
    and d: "delete two_memory_store 7 = two_memory_store"
    using delete_removes[of 7 two_memory_store] h by blast+
  then show ?thesis using a b h h2 c s by simp
qed







text \<open>
  The text that \<open>list\<close> returns is the text as the database keeps it: a lone surrogate
  comes back as U+FFFD.
\<close>

lemma lone_surrogate_replaced:
  "map mem_text (list_memories (run_ops 1 [Add [55296] [1] (js ''s1'') (js ''2025-01-01T00:00:00.000Z'')]))
     = [[65533]]"
  by (simp add: run_ops_def add_def new_store_def next_id_def list_memories_def
      high_surrogate_def low_surrogate_def)




section \<open>The extraction pipeline (src/extractor.ts)\<close>

subsection \<open>JSON values and \<open>JSON.parse\<close>\<close>

text \<open>
  A parsed JSON value. A number keeps its literal; an object keeps its members in
  source order, and a property read takes the last member with the key, as
  \<open>JSON.parse\<close> lets a later duplicate overwrite an earlier one.
\<close>

datatype json =
  JNull | JBool bool | JNumber jsstring | JString jsstring
  | JArray "json list" | JObject "(jsstring \<times> json) list"

datatype token = LBracket | RBracket | LBrace | RBrace | Comma | Colon | Atom json

definition json_ws :: "nat \<Rightarrow> bool" where
  "json_ws c \<longleftrightarrow> c = 32 \<or> c = 9 \<or> c = 10 \<or> c = 13"

definition is_digit :: "nat \<Rightarrow> bool" where
  "is_digit c \<longleftrightarrow> 48 \<le> c \<and> c \<le> 57"

definition is_lower :: "nat \<Rightarrow> bool" where
  "is_lower c \<longleftrightarrow> 97 \<le> c \<and> c \<le> 122"

definition hex_digit :: "nat \<Rightarrow> nat option" where
  "hex_digit c =
     (if 48 \<le> c \<and> c \<le> 57 then Some (c - 48)
      else if 97 \<le> c \<and> c \<le> 102 then Some (c - 87)
      else if 65 \<le> c \<and> c \<le> 70 then Some (c - 55)
      else None)"

fun hex4 :: "jsstring \<Rightarrow> nat option" where
  "hex4 [a, b, c, d] =
     (case (hex_digit a, hex_digit b, hex_digit c, hex_digit d) of
        (Some w, Some x, Some y, Some z) \<Rightarrow> Some (((w * 16 + x) * 16 + y) * 16 + z)
      | _ \<Rightarrow> None)"
| "hex4 _ = None"

text \<open>The character after a backslash: \<open>" \ / b f n r t\<close>.\<close>

definition unescape :: "nat \<Rightarrow> nat option" where
  "unescape c =
     (if c = 34 then Some 34 else if c = 92 then Some 92 else if c = 47 then Some 47
      else if c = 98 then Some 8 else if c = 102 then Some 12 else if c = 110 then Some 10
      else if c = 114 then Some 13 else if c = 116 then Some 9 else None)"

text \<open>
  A string literal after its opening quote: the decoded string and the input after the
  closing quote. Control characters below U+0020 are not allowed unescaped.
\<close>

fun lex_string :: "jsstring \<Rightarrow> jsstring \<Rightarrow> (jsstring \<times> jsstring) option" where
  "lex_string acc [] = None"
| "lex_string acc (c # cs) =
     (if c = 34 then Some (rev acc, cs)
      else if c = 92 then
        (case cs of
           [] \<Rightarrow> None
         | e # cs' \<Rightarrow>
             if e = 117 then
               (case hex4 (take 4 cs') of
                  None \<Rightarrow> None
                | Some u \<Rightarrow> lex_string (u # acc) (drop 4 cs'))
             else
               (case unescape e of
                  None \<Rightarrow> None
                | Some u \<Rightarrow> lex_string (u # acc) cs'))
      else if c < 32 then None
      else lex_string (c # acc) cs)"

text \<open>The number grammar: \<open>-? (0 | [1-9][0-9]*) (. [0-9]+)? ([eE] [+-]? [0-9]+)?\<close>.\<close>

definition valid_exp :: "jsstring \<Rightarrow> bool" where
  "valid_exp s =
     (case s of
        [] \<Rightarrow> True
      | c # r \<Rightarrow>
          (c = 101 \<or> c = 69) \<and>
          (let ds = (case r of [] \<Rightarrow> [] | g # r' \<Rightarrow> if g = 43 \<or> g = 45 then r' else r)
           in ds \<noteq> [] \<and> list_all is_digit ds))"

definition valid_frac_exp :: "jsstring \<Rightarrow> bool" where
  "valid_frac_exp s =
     (case s of
        [] \<Rightarrow> True
      | c # r \<Rightarrow>
          if c = 46 then takeWhile is_digit r \<noteq> [] \<and> valid_exp (dropWhile is_digit r)
          else valid_exp s)"

definition valid_number :: "jsstring \<Rightarrow> bool" where
  "valid_number s =
     (case (case s of [] \<Rightarrow> [] | c # r \<Rightarrow> if c = 45 then r else s) of
        [] \<Rightarrow> False
      | c # r \<Rightarrow>
          if c = 48 then valid_frac_exp r
          else is_digit c \<and> valid_frac_exp (dropWhile is_digit r))"

definition number_char :: "nat \<Rightarrow> bool" where
  "number_char c \<longleftrightarrow> is_digit c \<or> c = 43 \<or> c = 45 \<or> c = 46 \<or> c = 101 \<or> c = 69"

definition literal :: "jsstring \<Rightarrow> json option" where
  "literal w =
     (if w = js ''true'' then Some (JBool True)
      else if w = js ''false'' then Some (JBool False)
      else if w = js ''null'' then Some JNull
      else None)"

lemma lex_string_shorter:
  "lex_string acc cs = Some (s, rest) \<Longrightarrow> length rest < Suc (length cs)"
proof (induction acc cs arbitrary: s rest rule: lex_string.induct)
  case (1 acc)
  then show ?case by simp
next
  case (2 acc c cs)
  show ?case
  proof (cases "c = 34")
    case True
    then show ?thesis using 2 by simp
  next
    case q: False
    show ?thesis
    proof (cases "c = 92")
      case True
      show ?thesis
      proof (cases cs)
        case Nil
        then show ?thesis using 2 q True by simp
      next
        case (Cons e cs')
        show ?thesis
        proof (cases "e = 117")
          case u: True
          then obtain v where v: "hex4 (take 4 cs') = Some v"
            and r: "lex_string (v # acc) (drop 4 cs') = Some (s, rest)"
            using "2.prems" q True Cons by (auto split: option.splits)
          have "length rest < Suc (length (drop 4 cs'))"
            using "2.IH"(1)[OF q True Cons u v r] .
          then show ?thesis using Cons by simp
        next
          case u: False
          then obtain v where v: "unescape e = Some v"
            and r: "lex_string (v # acc) cs' = Some (s, rest)"
            using "2.prems" q True Cons by (auto split: option.splits)
          have "length rest < Suc (length cs')"
            using "2.IH"(2)[OF q True Cons u v r] .
          then show ?thesis using Cons by simp
        qed
      qed
    next
      case b: False
      then have c32: "\<not> c < 32" and r: "lex_string (c # acc) cs = Some (s, rest)"
        using "2.prems" q by (auto split: if_splits)
      have "length rest < Suc (length cs)" using "2.IH"(3)[OF q b c32 r] .
      then show ?thesis by simp
    qed
  qed
qed

function lex :: "jsstring \<Rightarrow> token list option" where
  "lex [] = Some []"
| "lex (c # cs) =
     (if json_ws c then lex cs
      else if c = 91 then map_option (Cons LBracket) (lex cs)
      else if c = 93 then map_option (Cons RBracket) (lex cs)
      else if c = 123 then map_option (Cons LBrace) (lex cs)
      else if c = 125 then map_option (Cons RBrace) (lex cs)
      else if c = 44 then map_option (Cons Comma) (lex cs)
      else if c = 58 then map_option (Cons Colon) (lex cs)
      else if c = 34 then
        (case lex_string [] cs of
           None \<Rightarrow> None
         | Some (s, rest) \<Rightarrow> map_option (Cons (Atom (JString s))) (lex rest))
      else if number_char c then
        (if valid_number (c # takeWhile number_char cs)
         then map_option (Cons (Atom (JNumber (c # takeWhile number_char cs))))
                (lex (dropWhile number_char cs))
         else None)
      else if is_lower c then
        (case literal (c # takeWhile is_lower cs) of
           None \<Rightarrow> None
         | Some v \<Rightarrow> map_option (Cons (Atom v)) (lex (dropWhile is_lower cs)))
      else None)"
  by pat_completeness auto
termination
  by (relation "measure length")
     (auto dest: lex_string_shorter intro: le_imp_less_Suc length_dropWhile_le)

text \<open>
  The parser reads the tokens one by one. A frame is an open array with its elements so
  far, or an open object with its members so far and the key whose value is awaited
  (both lists newest first).
\<close>

datatype frame = InArray "json list" | InObject "(jsstring \<times> json) list" "jsstring option"

datatype mode = ExpectValue | ValueOrClose | KeyOrClose | ExpectKey | AfterKey | AfterValue | Done json

fun complete :: "json \<Rightarrow> frame list \<Rightarrow> (mode \<times> frame list) option" where
  "complete v [] = Some (Done v, [])"
| "complete v (InArray es # st) = Some (AfterValue, InArray (v # es) # st)"
| "complete v (InObject ms (Some k) # st) = Some (AfterValue, InObject ((k, v) # ms) None # st)"
| "complete v (InObject ms None # st) = None"

definition begin_value :: "frame list \<Rightarrow> token \<Rightarrow> (mode \<times> frame list) option" where
  "begin_value st t =
     (case t of
        Atom v \<Rightarrow> complete v st
      | LBracket \<Rightarrow> Some (ValueOrClose, InArray [] # st)
      | LBrace \<Rightarrow> Some (KeyOrClose, InObject [] None # st)
      | _ \<Rightarrow> None)"

definition read_key :: "frame list \<Rightarrow> token \<Rightarrow> (mode \<times> frame list) option" where
  "read_key st t =
     (case (st, t) of
        (InObject ms None # st', Atom (JString k)) \<Rightarrow> Some (AfterKey, InObject ms (Some k) # st')
      | _ \<Rightarrow> None)"

definition close_array :: "frame list \<Rightarrow> (mode \<times> frame list) option" where
  "close_array st = (case st of InArray es # st' \<Rightarrow> complete (JArray (rev es)) st' | _ \<Rightarrow> None)"

definition close_object :: "frame list \<Rightarrow> (mode \<times> frame list) option" where
  "close_object st =
     (case st of InObject ms None # st' \<Rightarrow> complete (JObject (rev ms)) st' | _ \<Rightarrow> None)"

fun step :: "mode \<Rightarrow> frame list \<Rightarrow> token \<Rightarrow> (mode \<times> frame list) option" where
  "step ExpectValue st t = begin_value st t"
| "step ValueOrClose st t = (if t = RBracket then close_array st else begin_value st t)"
| "step KeyOrClose st t = (if t = RBrace then close_object st else read_key st t)"
| "step ExpectKey st t = read_key st t"
| "step AfterKey st t = (if t = Colon then Some (ExpectValue, st) else None)"
| "step AfterValue st t =
     (if t = Comma then
        (case st of
           InArray es # st' \<Rightarrow> Some (ExpectValue, st)
         | InObject ms None # st' \<Rightarrow> Some (ExpectKey, st)
         | _ \<Rightarrow> None)
      else if t = RBracket then close_array st
      else if t = RBrace then close_object st
      else None)"
| "step (Done v) st t = None"

fun parse_tokens :: "mode \<Rightarrow> frame list \<Rightarrow> token list \<Rightarrow> json option" where
  "parse_tokens m st [] = (case m of Done v \<Rightarrow> Some v | _ \<Rightarrow> None)"
| "parse_tokens m st (t # ts) =
     (case step m st t of None \<Rightarrow> None | Some (m', st') \<Rightarrow> parse_tokens m' st' ts)"

text \<open>\<open>JSON.parse\<close>: \<open>None\<close> stands for the SyntaxError it throws.\<close>

definition JSON_parse :: "jsstring \<Rightarrow> json option" where
  "JSON_parse s = (case lex s of None \<Rightarrow> None | Some ts \<Rightarrow> parse_tokens ExpectValue [] ts)"

subsection \<open>Regular expressions\<close>

text \<open>
  The regular expressions of \<open>parseResponse\<close> are sequences of these items: a literal,
  an optional literal \<open>(?:lit)?\<close>, a greedy repetition of a character class, and the
  anchors \<open>^\<close> and \<open>$\<close> (no \<open>m\<close> flag). \<open>rx_match\<close> matches a sequence at the current
  position as the backtracking matcher of ECMAScript does (longest repetition first, an
  optional item tried first, then skipped) and returns the input left after the first
  match found; \<open>at_start\<close> says whether the position is the start of the input.
\<close>

datatype rx = Lit jsstring | Opt jsstring | Star "nat \<Rightarrow> bool" | Bos | Eos

fun rx_match :: "rx list \<Rightarrow> bool \<Rightarrow> jsstring \<Rightarrow> jsstring option" where
  "rx_match [] at_start s = Some s"
| "rx_match (Lit l # rs) at_start s =
     (if take (length l) s = l then rx_match rs (at_start \<and> l = []) (drop (length l) s) else None)"
| "rx_match (Opt l # rs) at_start s =
     (case (if take (length l) s = l then rx_match rs (at_start \<and> l = []) (drop (length l) s)
            else None) of
        Some r \<Rightarrow> Some r
      | None \<Rightarrow> rx_match rs at_start s)"
| "rx_match (Star p # rs) at_start [] = rx_match rs at_start []"
| "rx_match (Star p # rs) at_start (c # cs) =
     (if p c then
        (case rx_match (Star p # rs) False cs of
           Some r \<Rightarrow> Some r
         | None \<Rightarrow> rx_match rs at_start (c # cs))
      else rx_match rs at_start (c # cs))"
| "rx_match (Bos # rs) at_start s = (if at_start then rx_match rs at_start s else None)"
| "rx_match (Eos # rs) at_start s = (if s = [] then rx_match rs at_start s else None)"

text \<open>
  The leftmost match: the text in front of it, the matched text and the text after it.
  \<open>passed\<close> holds the characters already passed, newest first.
\<close>

fun rx_exec :: "rx list \<Rightarrow> bool \<Rightarrow> jsstring \<Rightarrow> jsstring \<Rightarrow> (jsstring \<times> jsstring \<times> jsstring) option" where
  "rx_exec rs at_start passed s =
     (case rx_match rs at_start s of
        Some rest \<Rightarrow> Some (rev passed, take (length s - length rest) s, rest)
      | None \<Rightarrow> (case s of [] \<Rightarrow> None | c # cs \<Rightarrow> rx_exec rs False (c # passed) cs))"

text \<open>\<open>s.replace(re, "")\<close> for a regular expression without the \<open>g\<close> flag.\<close>

definition replace_empty :: "rx list \<Rightarrow> jsstring \<Rightarrow> jsstring" where
  "replace_empty rs s =
     (case rx_exec rs True [] s of None \<Rightarrow> s | Some (passed, m, after) \<Rightarrow> passed @ after)"

text \<open>\<open>s.match(re)\<close>: its element 0, the matched text.\<close>

definition match0 :: "rx list \<Rightarrow> jsstring \<Rightarrow> jsstring option" where
  "match0 rs s = map_option (\<lambda>(passed, m, after). m) (rx_exec rs True [] s)"

definition fence :: jsstring where
  "fence = [96, 96, 96]"

text \<open>\<open>/^```(?:json)?\s*\n?/\<close>, \<open>/\n?\s*```\s*$/\<close> and \<open>/\[[\s\S]*\]/\<close>.\<close>

definition json_tag :: jsstring where
  "json_tag = js ''json''"

definition opening_fence :: "rx list" where
  "opening_fence = [Bos, Lit fence, Opt json_tag, Star is_ws, Opt [10]]"

definition closing_fence :: "rx list" where
  "closing_fence = [Opt [10], Star is_ws, Lit fence, Star is_ws, Eos]"

definition array_pattern :: "rx list" where
  "array_pattern = [Lit [91], Star (\<lambda>c. True), Lit [93]]"

subsection \<open>parseResponse\<close>

text \<open>\<open>ExtractedMemory\<close>: its field \<open>text\<close> is \<open>fact\<close> here.\<close>

record ExtractedMemory =
  fact :: jsstring
  rationale :: jsstring

text \<open>\<open>typeof\<close> of a value, \<open>None\<close> being \<open>undefined\<close>.\<close>

fun typeof :: "json option \<Rightarrow> string" where
  "typeof None = ''undefined''"
| "typeof (Some JNull) = ''object''"
| "typeof (Some (JBool b)) = ''boolean''"
| "typeof (Some (JNumber n)) = ''number''"
| "typeof (Some (JString s)) = ''string''"
| "typeof (Some (JArray xs)) = ''object''"
| "typeof (Some (JObject ms)) = ''object''"

text \<open>
  Reading the property \<open>text\<close> or \<open>rationale\<close> of a non-null object: an own member of
  an object made by \<open>JSON.parse\<close>; arrays and the prototypes have neither.
\<close>

fun get_prop :: "json \<Rightarrow> jsstring \<Rightarrow> json option" where
  "get_prop (JObject ms) k = map_of (rev ms) k"
| "get_prop v k = None"

text \<open>The string a value is, once \<open>typeof\<close> has said it is one.\<close>

fun string_of :: "json option \<Rightarrow> jsstring" where
  "string_of (Some (JString s)) = s"
| "string_of v = []"

text \<open>The loop over the parsed array, \<open>memories'\<close> being the array \<open>memories\<close> it fills.\<close>

fun collect :: "json list \<Rightarrow> ExtractedMemory list \<Rightarrow> ExtractedMemory list" where
  "collect [] memories' = memories'"
| "collect (item # items) memories' =
     (if typeof (Some item) = ''object'' \<and> item \<noteq> JNull
         \<and> typeof (get_prop item (js ''text'')) = ''string''
         \<and> typeof (get_prop item (js ''rationale'')) = ''string''
         \<and> length (trim (string_of (get_prop item (js ''text'')))) > 0
      then collect items
             (memories' @ [\<lparr>fact = trim (string_of (get_prop item (js ''text''))),
                             rationale = trim (string_of (get_prop item (js ''rationale'')))\<rparr>])
      else collect items memories')"

text \<open>From \<open>if (!Array.isArray(parsed)) return []\<close> on.\<close>

definition to_memories :: "json \<Rightarrow> ExtractedMemory list" where
  "to_memories parsed = (case parsed of JArray items \<Rightarrow> collect items [] | _ \<Rightarrow> [])"

definition strip_fences :: "jsstring \<Rightarrow> jsstring" where
  "strip_fences json =
     (if take 3 json = fence
      then replace_empty closing_fence (replace_empty opening_fence json)
      else json)"

definition parseResponse :: "jsstring \<Rightarrow> ExtractedMemory list" where
  "parseResponse response =
     (let json = strip_fences (trim response) in
      case JSON_parse json of
        Some parsed \<Rightarrow> to_memories parsed
      | None \<Rightarrow>
          (case match0 array_pattern json of
             Some m \<Rightarrow> (case JSON_parse m of Some parsed \<Rightarrow> to_memories parsed | None \<Rightarrow> [])
           | None \<Rightarrow> []))"

subsection \<open>The specification's notions\<close>

text \<open>What the element is accepted by, in the words of the specification.\<close>

fun string_field :: "json \<Rightarrow> jsstring \<Rightarrow> jsstring option" where
  "string_field (JObject ms) k = (case map_of (rev ms) k of Some (JString s) \<Rightarrow> Some s | _ \<Rightarrow> None)"
| "string_field v k = None"

definition accepted :: "json \<Rightarrow> bool" where
  "accepted item =
     (case string_field item (js ''text'') of
        Some t \<Rightarrow> trim t \<noteq> [] \<and> string_field item (js ''rationale'') \<noteq> None
      | None \<Rightarrow> False)"

definition extracted :: "json \<Rightarrow> ExtractedMemory" where
  "extracted item =
     \<lparr>fact = trim (case string_field item (js ''text'') of Some t \<Rightarrow> t | None \<Rightarrow> []),
      rationale = trim (case string_field item (js ''rationale'') of Some r \<Rightarrow> r | None \<Rightarrow> [])\<rparr>"








section \<open>Properties of parseResponse\<close>

declare rx_exec.simps [simp del]

lemmas json_eval = JSON_parse_def json_ws_def number_char_def is_digit_def is_lower_def
  valid_number_def valid_frac_exp_def valid_exp_def literal_def unescape_def hex_digit_def
  begin_value_def read_key_def close_array_def close_object_def

lemma typeof_string_iff: "typeof v = ''string'' \<longleftrightarrow> (\<exists>s. v = Some (JString s))"
  by (cases v rule: typeof.cases) auto

lemma string_field_eq:
  "string_field item k = (if typeof (get_prop item k) = ''string'' then Some (string_of (get_prop item k)) else None)"
proof (cases item)
  case (JObject ms)
  show ?thesis
  proof (cases "map_of (rev ms) k")
    case None
    then show ?thesis using JObject by simp
  next
    case (Some v)
    then show ?thesis using JObject by (cases v) auto
  qed
qed auto

lemma get_prop_null: "get_prop JNull k = None"
  by simp

lemma typeof_object_of_prop: "get_prop item k \<noteq> None \<Longrightarrow> typeof (Some item) = ''object'' \<and> item \<noteq> JNull"
  by (cases item) auto

lemma condition_is_accepted:
  "(typeof (Some item) = ''object'' \<and> item \<noteq> JNull
      \<and> typeof (get_prop item (js ''text'')) = ''string''
      \<and> typeof (get_prop item (js ''rationale'')) = ''string''
      \<and> length (trim (string_of (get_prop item (js ''text'')))) > 0) \<longleftrightarrow> accepted item"
proof -
  have o: "typeof (Some item) = ''object'' \<and> item \<noteq> JNull"
    if "typeof (get_prop item (js ''text'')) = ''string''"
    using that typeof_object_of_prop[of item "js ''text''"] by (auto simp: typeof_string_iff)
  show ?thesis
    unfolding accepted_def string_field_eq[of item "js ''text''"] string_field_eq[of item "js ''rationale''"]
    using o by auto
qed

lemma extracted_eq:
  "accepted item \<Longrightarrow>
   extracted item = \<lparr>fact = trim (string_of (get_prop item (js ''text''))),
                     rationale = trim (string_of (get_prop item (js ''rationale'')))\<rparr>"
  unfolding accepted_def extracted_def
    string_field_eq[of item "js ''text''"] string_field_eq[of item "js ''rationale''"]
  by (auto split: if_splits)

lemma collect_eq: "collect items acc = acc @ map extracted (filter accepted items)"
proof (induction items arbitrary: acc)
  case Nil
  then show ?case by simp
next
  case (Cons item items)
  show ?case
  proof (cases "accepted item")
    case True
    then have "collect (item # items) acc = collect items (acc @ [extracted item])"
      using condition_is_accepted[of item] extracted_eq[of item] by simp
    then show ?thesis using Cons True by simp
  next
    case False
    then have "collect (item # items) acc = collect items acc"
      using condition_is_accepted[of item] by auto
    then show ?thesis using Cons False by simp
  qed
qed

text \<open>
  C9. Of a parsed array, \<open>parseResponse\<close> keeps exactly the elements that are
  objects whose \<open>text\<close> is a string, non-empty once trimmed, and whose \<open>rationale\<close>
  is a string; it returns them in their order, both fields trimmed, and drops the others.
\<close>

theorem parseResponse_validation:
  "to_memories (JArray items) = map extracted (filter accepted items)
   \<and> (JSON_parse (strip_fences (trim response)) = Some (JArray items) \<longrightarrow>
        parseResponse response = map extracted (filter accepted items))"
  by (simp add: to_memories_def collect_eq parseResponse_def)

theorem parseResponse_validation_witness:
  \<open>JSON_parse (strip_fences (trim (js ''[{"text":" a ","rationale":"r"},{"text":"b"},7]''))) =
     Some (JArray [JObject [(js ''text'', JString (js '' a '')), (js ''rationale'', JString (js ''r''))],
                   JObject [(js ''text'', JString (js ''b''))], JNumber (js ''7'')])
   \<and> parseResponse (js ''[{"text":" a ","rationale":"r"},{"text":"b"},7]'') =
       [\<lparr>fact = js ''a'', rationale = js ''r''\<rparr>]\<close>
proof -
  let ?items = "[JObject [(js ''text'', JString (js '' a '')), (js ''rationale'', JString (js ''r''))],
                   JObject [(js ''text'', JString (js ''b''))], JNumber (js ''7'')]"
  have t: \<open>strip_fences (trim (js ''[{"text":" a ","rationale":"r"},{"text":"b"},7]'')) =
      js ''[{"text":" a ","rationale":"r"},{"text":"b"},7]''\<close>
    by (simp add: trim_def is_ws_def strip_fences_def fence_def)
  have p: \<open>JSON_parse (strip_fences (trim (js ''[{"text":" a ","rationale":"r"},{"text":"b"},7]''))) =
     Some (JArray ?items)\<close>
    unfolding t by (simp add: json_eval)
  have m: "map extracted (filter accepted ?items) = [\<lparr>fact = js ''a'', rationale = js ''r''\<rparr>]"
    by (simp add: accepted_def extracted_def trim_def is_ws_def)
  show ?thesis
    using parseResponse_validation[of ?items \<open>js ''[{"text":" a ","rationale":"r"},{"text":"b"},7]''\<close>] p m
    by simp
qed






























section \<open>The signature extractor (src/signature.ts)\<close>

subsection \<open>Syntax trees and queries\<close>

text \<open>
  web-tree-sitter is not part of the repository. A syntax tree is modelled by its named
  nodes: the type of the node, the field of its parent it stands in (if any), its text
  and its children. A node is identified by its position, the path of child indices
  from the root.
\<close>

datatype node =
  Node (node_type: jsstring) (node_field: "jsstring option") (node_text: jsstring)
       (node_children: "node list")

type_synonym position = "nat list"

fun node_at :: "node \<Rightarrow> position \<Rightarrow> node option" where
  "node_at n [] = Some n"
| "node_at n (i # is) =
     (if i < length (node_children n) then node_at (node_children n ! i) is else None)"

text \<open>The positions of a tree, in document order.\<close>

fun positions :: "node \<Rightarrow> position list"
  and positions_from :: "nat \<Rightarrow> node list \<Rightarrow> position list" where
  "positions (Node t f x cs) = [] # positions_from 0 cs"
| "positions_from i [] = []"
| "positions_from i (c # cs) = map (Cons i) (positions c) @ positions_from (Suc i) cs"

text \<open>
  Every pattern of the queries of \<open>LANGUAGES\<close> is a chain: \<open>(t) @name\<close> captures a
  node of type \<open>t\<close>; \<open>(t f: p)\<close> is a node of type \<open>t\<close> with a child in field \<open>f\<close>
  that \<open>p\<close> matches, \<open>(t p)\<close> one with any child that \<open>p\<close> matches.
\<close>

datatype pattern = Capture jsstring | Child jsstring "jsstring option" pattern

text \<open>
  The matches of a pattern that start at a node: the positions, below that node, of
  the nodes they capture.
\<close>

fun children_matches :: "(node \<Rightarrow> position list) \<Rightarrow> jsstring option \<Rightarrow> nat \<Rightarrow> node list \<Rightarrow> position list" where
  "children_matches m f i [] = []"
| "children_matches m f i (c # cs) =
     (if f = None \<or> node_field c = f then map (Cons i) (m c) else [])
     @ children_matches m f (Suc i) cs"

fun match_at :: "pattern \<Rightarrow> node \<Rightarrow> position list" where
  "match_at (Capture t) n = (if node_type n = t then [[]] else [])"
| "match_at (Child t f p) n =
     (if node_type n = t then children_matches (match_at p) f 0 (node_children n) else [])"

text \<open>
  \<open>query.captures(tree.rootNode)\<close>, called without options: a match may start at any
  node of the tree. The captured nodes are listed in the order in which they start in
  the file, which for the nodes of a tree is the order of their positions: a node
  before the nodes below it and before the nodes to its right. A node that two patterns
  capture is listed twice.
\<close>

definition captures :: "pattern list \<Rightarrow> node \<Rightarrow> position list" where
  "captures query rootNode =
     sort (concat (map (\<lambda>p. concat (map (\<lambda>pos. case node_at rootNode pos of
                                                   None \<Rightarrow> []
                                                 | Some n \<Rightarrow> map (\<lambda>rel. pos @ rel) (match_at p n))
                                          (positions rootNode)))
                       query))"

definition text_at :: "node \<Rightarrow> position \<Rightarrow> jsstring" where
  "text_at rootNode pos = (case node_at rootNode pos of None \<Rightarrow> [] | Some n \<Rightarrow> node_text n)"

definition type_at :: "node \<Rightarrow> position \<Rightarrow> jsstring" where
  "type_at rootNode pos = (case node_at rootNode pos of None \<Rightarrow> [] | Some n \<Rightarrow> node_type n)"

subsection \<open>Language configurations\<close>

record LanguageConfig =
  query :: "pattern list"
  wasmFile :: jsstring

definition named :: "string \<Rightarrow> string \<Rightarrow> string \<Rightarrow> pattern" where
  "named t f c = Child (js t) (Some (js f)) (Capture (js c))"

definition exported :: "pattern \<Rightarrow> pattern" where
  "exported p = Child (js ''export_statement'') (Some (js ''declaration'')) p"

definition lexical :: pattern where
  "lexical = Child (js ''lexical_declaration'') None (named ''variable_declarator'' ''name'' ''identifier'')"

definition typescript_query :: "pattern list" where
  "typescript_query =
     [named ''class_declaration'' ''name'' ''type_identifier'',
      named ''abstract_class_declaration'' ''name'' ''type_identifier'',
      named ''interface_declaration'' ''name'' ''type_identifier'',
      named ''type_alias_declaration'' ''name'' ''type_identifier'',
      named ''function_declaration'' ''name'' ''identifier'',
      named ''enum_declaration'' ''name'' ''identifier'',
      exported (named ''class_declaration'' ''name'' ''type_identifier''),
      exported (named ''abstract_class_declaration'' ''name'' ''type_identifier''),
      exported (named ''interface_declaration'' ''name'' ''type_identifier''),
      exported (named ''type_alias_declaration'' ''name'' ''type_identifier''),
      exported (named ''function_declaration'' ''name'' ''identifier''),
      exported (named ''enum_declaration'' ''name'' ''identifier''),
      exported lexical,
      lexical]"

definition javascript_query :: "pattern list" where
  "javascript_query =
     [named ''class_declaration'' ''name'' ''identifier'',
      named ''function_declaration'' ''name'' ''identifier'',
      exported (named ''class_declaration'' ''name'' ''identifier''),
      exported (named ''function_declaration'' ''name'' ''identifier''),
      exported lexical,
      lexical]"

definition python_query :: "pattern list" where
  "python_query =
     [named ''class_definition'' ''name'' ''identifier'',
      named ''function_definition'' ''name'' ''identifier'']"

definition ruby_query :: "pattern list" where
  "ruby_query =
     [named ''module'' ''name'' ''constant'',
      named ''class'' ''name'' ''constant'',
      named ''method'' ''name'' ''identifier'',
      named ''singleton_method'' ''name'' ''identifier'']"

definition go_query :: "pattern list" where
  "go_query =
     [Child (js ''package_clause'') None (Capture (js ''package_identifier'')),
      Child (js ''type_declaration'') None (named ''type_spec'' ''name'' ''type_identifier''),
      named ''function_declaration'' ''name'' ''identifier'',
      named ''method_declaration'' ''name'' ''field_identifier'']"

definition rust_query :: "pattern list" where
  "rust_query =
     [named ''mod_item'' ''name'' ''identifier'',
      named ''struct_item'' ''name'' ''type_identifier'',
      named ''enum_item'' ''name'' ''type_identifier'',
      named ''trait_item'' ''name'' ''type_identifier'',
      named ''impl_item'' ''type'' ''type_identifier'',
      named ''function_item'' ''name'' ''identifier'',
      named ''type_item'' ''name'' ''type_identifier'']"

definition c_query :: "pattern list" where
  "c_query =
     [Child (js ''function_definition'') (Some (js ''declarator''))
        (named ''function_declarator'' ''declarator'' ''identifier''),
      Child (js ''function_definition'') (Some (js ''declarator''))
        (Child (js ''pointer_declarator'') (Some (js ''declarator''))
           (named ''function_declarator'' ''declarator'' ''identifier'')),
      named ''struct_specifier'' ''name'' ''type_identifier'',
      named ''enum_specifier'' ''name'' ''type_identifier'',
      named ''type_definition'' ''declarator'' ''type_identifier'']"

definition cpp_query :: "pattern list" where
  "cpp_query =
     [Child (js ''function_definition'') (Some (js ''declarator''))
        (named ''function_declarator'' ''declarator'' ''identifier''),
      named ''class_specifier'' ''name'' ''type_identifier'',
      named ''struct_specifier'' ''name'' ''type_identifier'',
      named ''enum_specifier'' ''name'' ''type_identifier'',
      named ''namespace_definition'' ''name'' ''identifier'',
      named ''type_definition'' ''declarator'' ''type_identifier'']"

definition java_query :: "pattern list" where
  "java_query =
     [Child (js ''package_declaration'') None (Capture (js ''scoped_identifier'')),
      named ''class_declaration'' ''name'' ''identifier'',
      named ''interface_declaration'' ''name'' ''identifier'',
      named ''enum_declaration'' ''name'' ''identifier'',
      named ''method_declaration'' ''name'' ''identifier'']"

definition swift_query :: "pattern list" where
  "swift_query =
     [named ''class_declaration'' ''name'' ''type_identifier'',
      named ''protocol_declaration'' ''name'' ''type_identifier'',
      named ''function_declaration'' ''name'' ''simple_identifier'']"

definition dart_query :: "pattern list" where
  "dart_query =
     [named ''class_definition'' ''name'' ''identifier'',
      named ''function_signature'' ''name'' ''identifier'',
      named ''enum_declaration'' ''name'' ''identifier'']"

definition php_query :: "pattern list" where
  "php_query =
     [named ''class_declaration'' ''name'' ''name'',
      named ''interface_declaration'' ''name'' ''name'',
      named ''trait_declaration'' ''name'' ''name'',
      named ''function_definition'' ''name'' ''name'',
      named ''namespace_definition'' ''name'' ''namespace_name'']"

definition csharp_query :: "pattern list" where
  "csharp_query =
     [named ''class_declaration'' ''name'' ''identifier'',
      named ''interface_declaration'' ''name'' ''identifier'',
      named ''struct_declaration'' ''name'' ''identifier'',
      named ''enum_declaration'' ''name'' ''identifier'',
      named ''namespace_declaration'' ''name'' ''identifier'',
      named ''method_declaration'' ''name'' ''identifier'']"

definition LANGUAGES :: "(jsstring \<times> LanguageConfig) list" where
  "LANGUAGES =
     [(js ''typescript'', \<lparr>query = typescript_query, wasmFile = js ''tree-sitter-typescript.wasm''\<rparr>),
      (js ''tsx'', \<lparr>query = typescript_query, wasmFile = js ''tree-sitter-tsx.wasm''\<rparr>),
      (js ''javascript'', \<lparr>query = javascript_query, wasmFile = js ''tree-sitter-javascript.wasm''\<rparr>),
      (js ''python'', \<lparr>query = python_query, wasmFile = js ''tree-sitter-python.wasm''\<rparr>),
      (js ''ruby'', \<lparr>query = ruby_query, wasmFile = js ''tree-sitter-ruby.wasm''\<rparr>),
      (js ''go'', \<lparr>query = go_query, wasmFile = js ''tree-sitter-go.wasm''\<rparr>),
      (js ''rust'', \<lparr>query = rust_query, wasmFile = js ''tree-sitter-rust.wasm''\<rparr>),
      (js ''c'', \<lparr>query = c_query, wasmFile = js ''tree-sitter-c.wasm''\<rparr>),
      (js ''cpp'', \<lparr>query = cpp_query, wasmFile = js ''tree-sitter-cpp.wasm''\<rparr>),
      (js ''java'', \<lparr>query = java_query, wasmFile = js ''tree-sitter-java.wasm''\<rparr>),
      (js ''swift'', \<lparr>query = swift_query, wasmFile = js ''tree-sitter-swift.wasm''\<rparr>),
      (js ''dart'', \<lparr>query = dart_query, wasmFile = js ''tree-sitter-dart.wasm''\<rparr>),
      (js ''php'', \<lparr>query = php_query, wasmFile = js ''tree-sitter-php.wasm''\<rparr>),
      (js ''csharp'', \<lparr>query = csharp_query, wasmFile = js ''tree-sitter-c_sharp.wasm''\<rparr>)]"

definition EXTENSION_MAP :: "(jsstring \<times> jsstring) list" where
  "EXTENSION_MAP =
     [(js ''.ts'', js ''typescript''), (js ''.tsx'', js ''tsx''),
      (js ''.js'', js ''javascript''), (js ''.jsx'', js ''javascript''),
      (js ''.mjs'', js ''javascript''), (js ''.cjs'', js ''javascript''),
      (js ''.py'', js ''python''), (js ''.rb'', js ''ruby''), (js ''.go'', js ''go''),
      (js ''.rs'', js ''rust''), (js ''.c'', js ''c''), (js ''.h'', js ''c''),
      (js ''.cpp'', js ''cpp''), (js ''.hpp'', js ''cpp''), (js ''.cc'', js ''cpp''),
      (js ''.cxx'', js ''cpp''), (js ''.java'', js ''java''), (js ''.swift'', js ''swift''),
      (js ''.dart'', js ''dart''), (js ''.php'', js ''php''), (js ''.cs'', js ''csharp'')]"

subsection \<open>Public API\<close>

text \<open>
  \<open>toLowerCase\<close> on the letters A to Z. Of the other characters it changes, none
  becomes a string of the characters that the keys of \<open>EXTENSION_MAP\<close> are made of.
\<close>

definition toLowerCase :: "jsstring \<Rightarrow> jsstring" where
  "toLowerCase s = map (\<lambda>c. if 65 \<le> c \<and> c \<le> 90 then c + 32 else c) s"

text \<open>\<open>filePath.substring(filePath.lastIndexOf("."))\<close>, when there is a dot.\<close>

definition from_last_dot :: "jsstring \<Rightarrow> jsstring option" where
  "from_last_dot filePath =
     (if 46 \<in> set filePath then Some (46 # rev (takeWhile (\<lambda>c. c \<noteq> 46) (rev filePath))) else None)"

definition detectLanguage :: "jsstring \<Rightarrow> jsstring option" where
  "detectLanguage filePath =
     (case from_last_dot filePath of
        None \<Rightarrow> None
      | Some ext \<Rightarrow> map_of EXTENSION_MAP (toLowerCase ext))"

definition supportedLanguages :: "jsstring list" where
  "supportedLanguages = map fst LANGUAGES"

text \<open>The loop of \<open>extractSignature\<close> over the captures: \<open>seen\<close> and \<open>names\<close>.\<close>

fun collect_names :: "jsstring list \<Rightarrow> jsstring list \<Rightarrow> jsstring list \<Rightarrow> jsstring list" where
  "collect_names [] seen names = names"
| "collect_names (capture_text # rest) seen names =
     (let t = trim capture_text in
      if t \<noteq> [] \<and> t \<notin> set seen then collect_names rest (t # seen) (names @ [t])
      else collect_names rest seen names)"

text \<open>
  \<open>extractSignature\<close>. The parser (a tree-sitter grammar loaded from its wasm file) is
  a parameter: \<open>parse langKey content\<close> is the root of the tree, or \<open>None\<close> when
  \<open>parser.parse\<close> returns no tree. The caches and the disposal of handles have no
  effect on the result.
\<close>

definition extractSignature :: "(jsstring \<Rightarrow> jsstring \<Rightarrow> node option) \<Rightarrow> jsstring \<Rightarrow> jsstring \<Rightarrow> jsstring option" where
  "extractSignature parse filePath content =
     (case detectLanguage filePath of
        None \<Rightarrow> None
      | Some langKey \<Rightarrow>
          (case map_of LANGUAGES langKey of
             None \<Rightarrow> None
           | Some config \<Rightarrow>
               (case parse langKey content of
                  None \<Rightarrow> None
                | Some rootNode \<Rightarrow>
                    let names = collect_names (map (text_at rootNode) (captures (query config) rootNode)) [] []
                    in if length names = 0 then None
                       else Some (filePath @ js '' | '' @ join (js '' | '') names))))"

text \<open>\<open>parentType.includes(sub)\<close>.\<close>

fun str_includes :: "jsstring \<Rightarrow> jsstring \<Rightarrow> bool" where
  "str_includes [] sub = (sub = [])"
| "str_includes (c # cs) sub = (take (length sub) (c # cs) = sub \<or> str_includes cs sub)"

definition declaration_level :: "jsstring \<Rightarrow> bool" where
  "declaration_level parentType \<longleftrightarrow>
     str_includes parentType (js ''declaration'') \<or> str_includes parentType (js ''definition'')
     \<or> str_includes parentType (js ''item'') \<or> str_includes parentType (js ''specifier'')
     \<or> parentType = js ''export_statement'' \<or> parentType = js ''impl_item''
     \<or> parentType = js ''type_declaration'' \<or> parentType = js ''program''
     \<or> parentType = js ''module''"

text \<open>
  \<open>findDeclarationAncestor\<close>, on the position of the node read from the node upwards
  (last child index first): the parent of a position is its tail.
\<close>

fun findDeclarationAncestor :: "node \<Rightarrow> position \<Rightarrow> position" where
  "findDeclarationAncestor rootNode [] = []"
| "findDeclarationAncestor rootNode (i # up) =
     (let parentType = type_at rootNode (rev up) in
      if declaration_level parentType
      then (if parentType = js ''program'' \<or> parentType = js ''module'' then i # up else up)
      else findDeclarationAncestor rootNode up)"

text \<open>The loop of \<open>extractSignatureLines\<close>: \<open>seen\<close> holds the declaration nodes met.\<close>

fun collect_lines :: "node \<Rightarrow> position list \<Rightarrow> position list \<Rightarrow> jsstring list \<Rightarrow> jsstring list" where
  "collect_lines rootNode [] seen lines = lines"
| "collect_lines rootNode (capture # rest) seen lines =
     (let declNode = rev (findDeclarationAncestor rootNode (rev capture)) in
      if declNode \<in> set seen then collect_lines rootNode rest seen lines
      else
        let firstLine = trim (takeWhile (\<lambda>c. c \<noteq> 10) (text_at rootNode declNode)) in
        if firstLine \<noteq> [] then collect_lines rootNode rest (declNode # seen) (lines @ [firstLine])
        else collect_lines rootNode rest (declNode # seen) lines)"

definition extractSignatureLines :: "(jsstring \<Rightarrow> jsstring \<Rightarrow> node option) \<Rightarrow> jsstring \<Rightarrow> jsstring \<Rightarrow> jsstring option" where
  "extractSignatureLines parse filePath content =
     (case detectLanguage filePath of
        None \<Rightarrow> None
      | Some langKey \<Rightarrow>
          (case map_of LANGUAGES langKey of
             None \<Rightarrow> None
           | Some config \<Rightarrow>
               (case parse langKey content of
                  None \<Rightarrow> None
                | Some rootNode \<Rightarrow>
                    let lines = collect_lines rootNode (captures (query config) rootNode) [] []
                    in if length lines = 0 then None
                       else Some (filePath @ js '' | '' @ join (js '' | '') lines))))"

text \<open>
  A Python file with a function nested in a function:
  \<^verbatim>\<open>def outer():\<close>, \<^verbatim>\<open>    def inner():\<close>, \<^verbatim>\<open>        pass\<close>.
\<close>

definition inner_function :: node where
  "inner_function =
     Node (js ''function_definition'') None (js ''def inner():'' @ [10] @ js ''        pass'')
       [Node (js ''identifier'') (Some (js ''name'')) (js ''inner'') [],
        Node (js ''parameters'') (Some (js ''parameters'')) (js ''()'') [],
        Node (js ''block'') (Some (js ''body'')) (js ''pass'')
          [Node (js ''pass_statement'') None (js ''pass'') []]]"

definition nested_python :: node where
  "nested_python =
     Node (js ''module'') None
       (js ''def outer():'' @ [10] @ js ''    def inner():'' @ [10] @ js ''        pass'' @ [10])
       [Node (js ''function_definition'') None
          (js ''def outer():'' @ [10] @ js ''    def inner():'' @ [10] @ js ''        pass'')
          [Node (js ''identifier'') (Some (js ''name'')) (js ''outer'') [],
           Node (js ''parameters'') (Some (js ''parameters'')) (js ''()'') [],
           Node (js ''block'') (Some (js ''body'')) (js ''def inner():'' @ [10] @ js ''        pass'')
             [inner_function]]]"

subsection \<open>Notions of the specification and sample trees\<close>

text \<open>A parser that answers with a given tree.\<close>

definition parses_to :: "node \<Rightarrow> jsstring \<Rightarrow> jsstring \<Rightarrow> node option" where
  "parses_to rootNode langKey content = Some rootNode"

text \<open>Removing duplicates, the first occurrence of each element staying where it is.\<close>

fun dedup_first :: "'a list \<Rightarrow> 'a list" where
  "dedup_first [] = []"
| "dedup_first (x # xs) = x # dedup_first (filter (\<lambda>y. y \<noteq> x) xs)"

text \<open>The first line of a text, without the whitespace around it.\<close>

definition first_line :: "jsstring \<Rightarrow> jsstring" where
  "first_line t = trim (takeWhile (\<lambda>c. c \<noteq> 10) t)"

text \<open>
  A node type that names a declaration: it contains \<open>declaration\<close>, \<open>definition\<close>,
  \<open>item\<close> or \<open>specifier\<close>.
\<close>

definition declaration_type :: "jsstring \<Rightarrow> bool" where
  "declaration_type t \<longleftrightarrow>
     sublist (js ''declaration'') t \<or> sublist (js ''definition'') t
     \<or> sublist (js ''item'') t \<or> sublist (js ''specifier'') t"

text \<open>
  The node that stands for a captured name in the signature of lines. Going up from
  the name, the first node whose type names a declaration or is \<open>export_statement\<close>
  is that node; when a \<open>program\<close> or \<open>module\<close> node is met first, it is the node
  just below that one on the way; when neither is met, it is the root. The nodes above
  a position are its proper prefixes, the longest first.
\<close>

definition walk_stops :: "jsstring \<Rightarrow> bool" where
  "walk_stops t \<longleftrightarrow>
     declaration_type t \<or> t = js ''export_statement'' \<or> t = js ''program'' \<or> t = js ''module''"

definition enclosing_declaration :: "node \<Rightarrow> position \<Rightarrow> position" where
  "enclosing_declaration rootNode c =
     (case find (\<lambda>a. walk_stops (type_at rootNode a)) (rev (butlast (prefixes c))) of
        None \<Rightarrow> []
      | Some a \<Rightarrow>
          if type_at rootNode a = js ''program'' \<or> type_at rootNode a = js ''module''
          then take (Suc (length a)) c else a)"

text \<open>
  The Go file \<^verbatim>\<open>package\<close> followed by a line break, the package name missing: the
  parser completes the clause with a \<open>package_identifier\<close> node that has no text.
\<close>

definition go_missing_package :: node where
  "go_missing_package =
     Node (js ''source_file'') None (js ''package'' @ [10])
       [Node (js ''package_clause'') None (js ''package'')
          [Node (js ''package_identifier'') None [] []]]"

text \<open>
  A Ruby file with a method in a class:
  \<^verbatim>\<open>class A\<close>, \<^verbatim>\<open>  def f\<close>, \<^verbatim>\<open>  end\<close>, \<^verbatim>\<open>end\<close>.
\<close>

definition ruby_method_in_class :: node where
  "ruby_method_in_class =
     Node (js ''program'') None
       (js ''class A'' @ [10] @ js ''  def f'' @ [10] @ js ''  end'' @ [10] @ js ''end'' @ [10])
       [Node (js ''class'') None
          (js ''class A'' @ [10] @ js ''  def f'' @ [10] @ js ''  end'' @ [10] @ js ''end'')
          [Node (js ''constant'') (Some (js ''name'')) (js ''A'') [],
           Node (js ''body_statement'') (Some (js ''body'')) (js ''def f'' @ [10] @ js ''  end'')
             [Node (js ''method'') None (js ''def f'' @ [10] @ js ''  end'')
                [Node (js ''identifier'') (Some (js ''name'')) (js ''f'') []]]]]"

text \<open>
  The C file \<^verbatim>\<open>struct s f(){}\<close>: a function whose return type is a struct. The pattern
  of the function comes first in the query and matches at the outer node; the name of
  the struct comes first in the file.
\<close>

definition c_struct_function :: node where
  "c_struct_function =
     Node (js ''translation_unit'') None (js ''struct s f(){}'')
       [Node (js ''function_definition'') None (js ''struct s f(){}'')
          [Node (js ''struct_specifier'') (Some (js ''type'')) (js ''struct s'')
             [Node (js ''type_identifier'') (Some (js ''name'')) (js ''s'') []],
           Node (js ''function_declarator'') (Some (js ''declarator'')) (js ''f()'')
             [Node (js ''identifier'') (Some (js ''declarator'')) (js ''f'') [],
              Node (js ''parameter_list'') (Some (js ''parameters'')) (js ''()'') []],
           Node (js ''compound_statement'') (Some (js ''body'')) (js ''{}'') []]]"

section \<open>Properties of the signature extractor\<close>

lemmas sig_eval = captures_def text_at_def type_at_def named_def exported_def lexical_def
  detectLanguage_def from_last_dot_def toLowerCase_def EXTENSION_MAP_def LANGUAGES_def
  trim_def is_ws_def parses_to_def declaration_level_def

lemma nested_python_captures: "captures python_query nested_python = [[0, 0], [0, 2, 0, 0]]"
  by (simp add: sig_eval python_query_def nested_python_def inner_function_def)

lemma python_detected: "detectLanguage (js ''a.py'') = Some (js ''python'')"
  by (simp add: sig_eval)

lemma python_config:
  "map_of LANGUAGES (js ''python'') = Some \<lparr>query = python_query, wasmFile = js ''tree-sitter-python.wasm''\<rparr>"
  by (simp add: LANGUAGES_def)

lemma set_dedup_first: "set (dedup_first xs) = set xs"
proof (induction xs rule: dedup_first.induct)
  case 1
  then show ?case by simp
next
  case (2 x xs)
  then show ?case by auto
qed

lemma distinct_dedup_first: "distinct (dedup_first xs)"
proof (induction xs rule: dedup_first.induct)
  case 1
  then show ?case by simp
next
  case (2 x xs)
  then show ?case by (simp add: set_dedup_first)
qed

lemma collect_names_eq:
  "collect_names ts seen names =
     names @ dedup_first (filter (\<lambda>t. t \<noteq> [] \<and> t \<notin> set seen) (map trim ts))"
proof (induction ts arbitrary: seen names)
  case Nil
  then show ?case by simp
next
  case (Cons t ts)
  show ?case
  proof (cases "trim t \<noteq> [] \<and> trim t \<notin> set seen")
    case True
    have f: "filter (\<lambda>y. y \<noteq> trim t) (filter (\<lambda>x. x \<noteq> [] \<and> x \<notin> set seen) (map trim ts))
        = filter (\<lambda>x. x \<noteq> [] \<and> x \<notin> set (trim t # seen)) (map trim ts)"
      by (auto intro: filter_cong)
    have "collect_names (t # ts) seen names = collect_names ts (trim t # seen) (names @ [trim t])"
      using True by (simp add: Let_def)
    also have "\<dots> = (names @ [trim t])
        @ dedup_first (filter (\<lambda>x. x \<noteq> [] \<and> x \<notin> set (trim t # seen)) (map trim ts))"
      by (rule Cons)
    also have "\<dots> = names
        @ dedup_first (filter (\<lambda>t. t \<noteq> [] \<and> t \<notin> set seen) (map trim (t # ts)))"
      using True by (simp add: f del: filter_filter)
    finally show ?thesis .
  next
    case False
    then show ?thesis by (auto simp: Cons Let_def)
  qed
qed

lemma collect_names_spec:
  "collect_names (map (text_at rootNode) caps) [] [] =
     dedup_first (filter (\<lambda>t. t \<noteq> []) (map (\<lambda>pos. trim (text_at rootNode pos)) caps))"
  by (simp add: collect_names_eq comp_def)

text \<open>
  C7, as stated: a file that yields at least one query capture gets a signature. The
  loop skips a capture whose trimmed text is empty: the Go file that stops after
  \<^verbatim>\<open>package\<close> yields one capture, the missing package name, and no signature.
\<close>

theorem missing_name_no_signature:
  "captures go_query go_missing_package = [[0, 0]]
   \<and> text_at go_missing_package [0, 0] = []
   \<and> extractSignature (parses_to go_missing_package) (js ''a.go'') (js ''package'' @ [10]) = None"
proof -
  have c: "captures go_query go_missing_package = [[0, 0]]"
    by (simp add: sig_eval go_query_def go_missing_package_def)
  have d: "detectLanguage (js ''a.go'') = Some (js ''go'')"
    by (simp add: sig_eval)
  have g: "map_of LANGUAGES (js ''go'')
      = Some \<lparr>query = go_query, wasmFile = js ''tree-sitter-go.wasm''\<rparr>"
    by (simp add: LANGUAGES_def)
  have t: "text_at go_missing_package [0, 0] = []"
    by (simp add: text_at_def go_missing_package_def)
  have "extractSignature (parses_to go_missing_package) (js ''a.go'') (js ''package'' @ [10]) = None"
    unfolding extractSignature_def
    by (simp add: d[simplified] g[simplified] parses_to_def c t trim_def)
  then show ?thesis using c t by simp
qed

text \<open>
  C7, amended. For a file of a detected language that the parser gives a tree for, the
  names are the trimmed texts of the captured nodes, the empty ones skipped, without
  duplicates and in the order of their first occurrence; \<open>extractSignature\<close> returns
  none when there is no such name, and otherwise the path and the names joined by
  \<open>" | "\<close>. It returns none when the language is not detected or there is no tree.
\<close>

theorem extractSignature_names:
  "extractSignature parse filePath content =
     (case detectLanguage filePath of
        None \<Rightarrow> None
      | Some langKey \<Rightarrow>
          (case map_of LANGUAGES langKey of
             None \<Rightarrow> None
           | Some config \<Rightarrow>
               (case parse langKey content of
                  None \<Rightarrow> None
                | Some rootNode \<Rightarrow>
                    (case dedup_first (filter (\<lambda>t. t \<noteq> [])
                            (map (\<lambda>pos. trim (text_at rootNode pos)) (captures (query config) rootNode))) of
                       [] \<Rightarrow> None
                     | name # names \<Rightarrow>
                         Some (filePath @ js '' | '' @ join (js '' | '') (name # names))))))"
  unfolding extractSignature_def collect_names_spec
  by (simp add: Let_def split: option.splits list.splits)

theorem extractSignature_names_witness:
  "extractSignature (parses_to nested_python) (js ''a.py'') (node_text nested_python)
     = Some (js ''a.py | outer | inner'')
   \<and> dedup_first (filter (\<lambda>t. t \<noteq> [])
        (map (\<lambda>pos. trim (text_at nested_python pos)) (captures python_query nested_python)))
     = [js ''outer'', js ''inner'']"
proof -
  have t: "dedup_first (filter (\<lambda>t. t \<noteq> [])
        (map (\<lambda>pos. trim (text_at nested_python pos)) (captures python_query nested_python)))
     = [js ''outer'', js ''inner'']"
    unfolding nested_python_captures
    by (simp add: text_at_def nested_python_def inner_function_def trim_def is_ws_def)
  have "extractSignature (parses_to nested_python) (js ''a.py'') (node_text nested_python)
     = Some (js ''a.py | outer | inner'')"
    using extractSignature_names[of "parses_to nested_python" "js ''a.py''" "node_text nested_python"]
    by (simp add: python_detected[simplified] python_config[simplified] parses_to_def t[simplified])
  then show ?thesis using t by simp
qed

text \<open>
  Every pattern of every language asks for a child of the node it matches at, so a tree
  that is a root without children, as of an empty file, has no capture and no signature.
\<close>

lemma concat_map_Nil: "concat (map (\<lambda>x. []) xs) = []"
  by (induction xs) simp_all

lemma childless_root_no_capture:
  assumes "map_of LANGUAGES langKey = Some config"
  shows "captures (query config) (Node t f x []) = []"
proof -
  have "(langKey, config) \<in> set LANGUAGES" using assms by (rule map_of_SomeD)
  then have "config \<in> snd ` set LANGUAGES" by force
  then have "\<forall>p \<in> set (query config). match_at p (Node t f x []) = []"
    by (auto simp: LANGUAGES_def typescript_query_def javascript_query_def python_query_def
        ruby_query_def go_query_def rust_query_def c_query_def cpp_query_def java_query_def
        swift_query_def dart_query_def php_query_def csharp_query_def
        named_def exported_def lexical_def)
  then show ?thesis by (simp add: captures_def concat_map_Nil cong: map_cong)
qed

lemma childless_root_no_signature:
  assumes "parse langKey content = Some (Node t f x [])"
    and "detectLanguage filePath = Some langKey"
  shows "extractSignature parse filePath content = None"
    and "extractSignatureLines parse filePath content = None"
  using assms childless_root_no_capture[of langKey _ t f x]
  by (auto simp: extractSignature_def extractSignatureLines_def split: option.splits)

text \<open>
  The order of the names is the order of the captured nodes in the file, not the order
  of the patterns: in \<^verbatim>\<open>struct s f(){}\<close> the struct is named before the function.
\<close>

lemma names_in_file_order:
  "captures c_query c_struct_function = [[0, 0, 0], [0, 1, 0]]
   \<and> extractSignature (parses_to c_struct_function) (js ''a.c'') (js ''struct s f(){}'')
     = Some (js ''a.c | s | f'')"
proof -
  have c: "captures c_query c_struct_function = [[0, 0, 0], [0, 1, 0]]"
    by (simp add: sig_eval c_query_def c_struct_function_def)
  have d: "detectLanguage (js ''a.c'') = Some (js ''c'')"
    by (simp add: sig_eval)
  have g: "map_of LANGUAGES (js ''c'') = Some \<lparr>query = c_query, wasmFile = js ''tree-sitter-c.wasm''\<rparr>"
    by (simp add: LANGUAGES_def)
  have t: "map (text_at c_struct_function) [[0, 0, 0], [0, 1, 0]] = [js ''s'', js ''f'']"
    by (simp add: text_at_def c_struct_function_def)
  have n: "collect_names [js ''s'', js ''f''] [] [] = [js ''s'', js ''f'']"
    by (simp add: trim_def is_ws_def)
  have "extractSignature (parses_to c_struct_function) (js ''a.c'') (js ''struct s f(){}'')
     = Some (js ''a.c | s | f'')"
    unfolding extractSignature_def
    by (simp add: d[simplified] g[simplified] parses_to_def c t[simplified] n[simplified])
  then show ?thesis using c by simp
qed

lemma positions_from_mem:
  "j < length cs \<Longrightarrow> rest \<in> set (positions (cs ! j)) \<Longrightarrow>
   (i + j) # rest \<in> set (positions_from i cs)"
proof (induction cs arbitrary: i j)
  case Nil
  then show ?case by simp
next
  case (Cons c cs)
  show ?case
  proof (cases j)
    case 0
    then show ?thesis using Cons.prems by simp
  next
    case (Suc k)
    then have "(Suc i + k) # rest \<in> set (positions_from (Suc i) cs)"
      using Cons.prems by (intro Cons.IH) simp_all
    then show ?thesis using Suc by simp
  qed
qed

lemma node_at_positions: "node_at n pos = Some m \<Longrightarrow> pos \<in> set (positions n)"
proof (induction pos arbitrary: n)
  case Nil
  show ?case by (cases n) simp
next
  case (Cons i rest)
  then have i: "i < length (node_children n)"
    and r: "node_at (node_children n ! i) rest = Some m"
    by (auto split: if_splits)
  have "rest \<in> set (positions (node_children n ! i))" using r by (rule Cons.IH)
  then have "(0 + i) # rest \<in> set (positions_from 0 (node_children n))"
    using i by (intro positions_from_mem)
  then show ?case by (cases n) simp
qed

lemma captures_mem:
  assumes "node_at rootNode pos = Some n" and "p \<in> set q" and "rel \<in> set (match_at p n)"
  shows "pos @ rel \<in> set (captures q rootNode)"
proof -
  have "pos \<in> set (positions rootNode)" using assms(1) by (rule node_at_positions)
  then show ?thesis unfolding captures_def using assms by force
qed

lemma collect_names_set:
  "set (collect_names (map (text_at rootNode) caps) [] []) =
     {t. t \<noteq> [] \<and> t \<in> (\<lambda>pos. trim (text_at rootNode pos)) ` set caps}"
  unfolding collect_names_spec set_dedup_first by auto

lemma collect_lines_keeps: "set lines \<subseteq> set (collect_lines rootNode caps seen lines)"
proof (induction caps arbitrary: seen lines)
  case Nil
  then show ?case by simp
next
  case (Cons c caps)
  let ?d = "rev (findDeclarationAncestor rootNode (rev c))"
  let ?l = "trim (takeWhile (\<lambda>c. c \<noteq> 10) (text_at rootNode ?d))"
  have a: "set lines \<subseteq> set (collect_lines rootNode caps seen lines)" by (rule Cons.IH)
  have b: "set lines \<subseteq> set (collect_lines rootNode caps (?d # seen) lines)" by (rule Cons.IH)
  have "set (lines @ [?l]) \<subseteq> set (collect_lines rootNode caps (?d # seen) (lines @ [?l]))"
    by (rule Cons.IH)
  then have c: "set lines \<subseteq> set (collect_lines rootNode caps (?d # seen) (lines @ [?l]))" by simp
  show ?case using a b c by (simp add: Let_def)
qed

lemma collect_lines_has:
  assumes "\<forall>d \<in> set seen. trim (takeWhile (\<lambda>c. c \<noteq> 10) (text_at rootNode d)) \<noteq> [] \<longrightarrow>
             trim (takeWhile (\<lambda>c. c \<noteq> 10) (text_at rootNode d)) \<in> set lines"
    and "c \<in> set caps"
    and "trim (takeWhile (\<lambda>c. c \<noteq> 10)
           (text_at rootNode (rev (findDeclarationAncestor rootNode (rev c))))) \<noteq> []"
  shows "trim (takeWhile (\<lambda>c. c \<noteq> 10)
           (text_at rootNode (rev (findDeclarationAncestor rootNode (rev c)))))
         \<in> set (collect_lines rootNode caps seen lines)"
  using assms
proof (induction caps arbitrary: seen lines)
  case Nil
  then show ?case by simp
next
  case (Cons x caps)
  let ?fl = "\<lambda>d. trim (takeWhile (\<lambda>c. c \<noteq> 10) (text_at rootNode d))"
  let ?d = "rev (findDeclarationAncestor rootNode (rev x))"
  let ?dc = "rev (findDeclarationAncestor rootNode (rev c))"
  show ?case
  proof (cases "?d \<in> set seen")
    case True
    have step: "collect_lines rootNode (x # caps) seen lines = collect_lines rootNode caps seen lines"
      using True by (simp add: Let_def)
    show ?thesis
    proof (cases "c = x")
      case cx: True
      then have "?fl ?dc \<in> set lines"
        using Cons.prems(1,3) True by auto
      then show ?thesis unfolding step using collect_lines_keeps by blast
    next
      case False
      then have "c \<in> set caps" using Cons.prems(2) by simp
      then show ?thesis unfolding step using Cons.IH[OF Cons.prems(1) _ Cons.prems(3)] by simp
    qed
  next
    case False
    show ?thesis
    proof (cases "?fl ?d \<noteq> []")
      case ne: True
      have step: "collect_lines rootNode (x # caps) seen lines =
          collect_lines rootNode caps (?d # seen) (lines @ [?fl ?d])"
        using False ne by (simp add: Let_def)
      have inv: "\<forall>d \<in> set (?d # seen). ?fl d \<noteq> [] \<longrightarrow> ?fl d \<in> set (lines @ [?fl ?d])"
        using Cons.prems(1) by auto
      show ?thesis
      proof (cases "c = x")
        case True
        then have "?fl ?dc \<in> set (lines @ [?fl ?d])" by simp
        then show ?thesis unfolding step using collect_lines_keeps by blast
      next
        case False
        then have "c \<in> set caps" using Cons.prems(2) by simp
        then show ?thesis unfolding step using Cons.IH[OF inv _ Cons.prems(3)] by simp
      qed
    next
      case e: False
      have step: "collect_lines rootNode (x # caps) seen lines =
          collect_lines rootNode caps (?d # seen) lines"
        using False e by (simp add: Let_def)
      have inv: "\<forall>d \<in> set (?d # seen). ?fl d \<noteq> [] \<longrightarrow> ?fl d \<in> set lines"
        using Cons.prems(1) e by auto
      have "c \<noteq> x" using Cons.prems(3) e by auto
      then have "c \<in> set caps" using Cons.prems(2) by simp
      then show ?thesis unfolding step using Cons.IH[OF inv _ Cons.prems(3)] by simp
    qed
  qed
qed

lemma str_includes_sublist: "str_includes t sub \<longleftrightarrow> sublist sub t"
proof (induction t)
  case Nil
  then show ?case by auto
next
  case (Cons c cs)
  have "take (length sub) (c # cs) = sub \<longleftrightarrow> prefix sub (c # cs)"
    by (metis append_eq_conv_conj append_take_drop_id prefix_def)
  then show ?case using Cons by (simp add: sublist_Cons_right)
qed

lemma declaration_type_level:
  "declaration_type t \<Longrightarrow> declaration_level t \<and> t \<noteq> js ''program'' \<and> t \<noteq> js ''module''"
proof -
  have "\<not> declaration_type (js ''program'')" and "\<not> declaration_type (js ''module'')"
    by (simp_all add: declaration_type_def str_includes_sublist[symmetric])
  then show "declaration_type t \<Longrightarrow> declaration_level t \<and> t \<noteq> js ''program'' \<and> t \<noteq> js ''module''"
    by (auto simp: declaration_type_def declaration_level_def str_includes_sublist)
qed

lemma parent_of_declaration_type:
  assumes "declaration_type (type_at rootNode (butlast c))"
  shows "rev (findDeclarationAncestor rootNode (rev c)) = butlast c"
proof (cases c rule: rev_cases)
  case Nil
  then show ?thesis by simp
next
  case (snoc up i)
  then have "declaration_type (type_at rootNode up)" using assms by simp
  then have "declaration_level (type_at rootNode up)
      \<and> type_at rootNode up \<noteq> js ''program'' \<and> type_at rootNode up \<noteq> js ''module''"
    by (rule declaration_type_level)
  then show ?thesis using snoc by (simp add: Let_def)
qed

lemma walk_stops_level: "declaration_level t \<longleftrightarrow> walk_stops t"
proof -
  have "declaration_type (js ''impl_item'')" and "declaration_type (js ''type_declaration'')"
    by (simp_all add: declaration_type_def str_includes_sublist[symmetric])
  then show ?thesis
    by (auto simp: declaration_level_def walk_stops_def declaration_type_def str_includes_sublist)
qed

lemma rev_prefixes: "rev (prefixes up) = up # rev (butlast (prefixes up))"
proof -
  have "prefixes up = butlast (prefixes up) @ [up]"
    by (metis append_butlast_last_id prefixes_not_Nil last_prefixes)
  then have "rev (prefixes up) = rev (butlast (prefixes up) @ [up])" by (rule arg_cong)
  then show ?thesis by (simp only: rev_append rev.simps append.simps)
qed

lemma ancestors_snoc: "rev (butlast (prefixes (up @ [i]))) = up # rev (butlast (prefixes up))"
proof -
  have "butlast (prefixes (up @ [i])) = prefixes up" by simp
  then show ?thesis using rev_prefixes[of up] by (simp only:)
qed

lemma ancestors_shorter: "a \<in> set (butlast (prefixes up)) \<Longrightarrow> length a < length up"
proof (induction up rule: rev_induct)
  case Nil
  then show ?case by simp
next
  case (snoc x up)
  then have "prefix a up" by (simp add: prefixes_snoc in_set_prefixes)
  then show ?case using prefix_length_le by fastforce
qed

lemma find_Some_mem: "find P xs = Some a \<Longrightarrow> a \<in> set xs"
  by (induction xs) (auto split: if_splits)

lemma findDeclarationAncestor_enclosing:
  "rev (findDeclarationAncestor rootNode (rev c)) = enclosing_declaration rootNode c"
proof (induction c rule: rev_induct)
  case Nil
  then show ?case by (simp add: enclosing_declaration_def)
next
  case (snoc i up)
  show ?case
  proof (cases "walk_stops (type_at rootNode up)")
    case True
    have "find (\<lambda>a. walk_stops (type_at rootNode a)) (rev (butlast (prefixes (up @ [i])))) = Some up"
      unfolding ancestors_snoc using True by simp
    then have "enclosing_declaration rootNode (up @ [i]) =
        (if type_at rootNode up = js ''program'' \<or> type_at rootNode up = js ''module''
         then up @ [i] else up)"
      unfolding enclosing_declaration_def by (simp only: option.case take_Suc_conv_app_nth) simp
    then show ?thesis using True by (simp add: walk_stops_level Let_def)
  next
    case False
    have step: "findDeclarationAncestor rootNode (rev (up @ [i])) = findDeclarationAncestor rootNode (rev up)"
      using False by (simp add: walk_stops_level Let_def)
    let ?f = "find (\<lambda>a. walk_stops (type_at rootNode a)) (rev (butlast (prefixes up)))"
    have f: "find (\<lambda>a. walk_stops (type_at rootNode a)) (rev (butlast (prefixes (up @ [i])))) = ?f"
      unfolding ancestors_snoc using False by simp
    have "enclosing_declaration rootNode (up @ [i]) = enclosing_declaration rootNode up"
    proof (cases ?f)
      case None
      then show ?thesis unfolding enclosing_declaration_def f by simp
    next
      case (Some a)
      then have "a \<in> set (rev (butlast (prefixes up)))" by (rule find_Some_mem)
      then have "a \<in> set (butlast (prefixes up))" by (simp only: set_rev)
      then have "length a < length up" by (rule ancestors_shorter)
      then have "take (Suc (length a)) (up @ [i]) = take (Suc (length a)) up" by simp
      then show ?thesis unfolding enclosing_declaration_def f Some by simp
    qed
    then show ?thesis using snoc step by simp
  qed
qed

text \<open>
  C4, as stated: a declaration nested in another contributes no capture. The query is
  run on the root without options, so its patterns match at every depth: for a Python
  function defined inside a function, both names are in the signature and both first
  lines in the signature of lines.
\<close>

theorem nested_declaration_captured:
  "extractSignature (parses_to nested_python) (js ''a.py'') (node_text nested_python)
     = Some (js ''a.py | outer | inner'')
   \<and> extractSignatureLines (parses_to nested_python) (js ''a.py'') (node_text nested_python)
     = Some (js ''a.py | def outer(): | def inner():'')"
proof -
  have t: "map (text_at nested_python) [[0, 0], [0, 2, 0, 0]] = [js ''outer'', js ''inner'']"
    by (simp add: text_at_def nested_python_def inner_function_def)
  have n: "collect_names [js ''outer'', js ''inner''] [] [] = [js ''outer'', js ''inner'']"
    by (simp add: trim_def is_ws_def)
  have 1: "extractSignature (parses_to nested_python) (js ''a.py'') (node_text nested_python)
     = Some (js ''a.py | outer | inner'')"
    unfolding extractSignature_def
    by (simp add: python_detected[simplified] python_config[simplified] parses_to_def
        nested_python_captures t[simplified] n[simplified])
  have l: "collect_lines nested_python [[0, 0], [0, 2, 0, 0]] [] []
      = [js ''def outer():'', js ''def inner():'']"
    by (simp add: sig_eval nested_python_def inner_function_def)
  have 2: "extractSignatureLines (parses_to nested_python) (js ''a.py'') (node_text nested_python)
     = Some (js ''a.py | def outer(): | def inner():'')"
    unfolding extractSignatureLines_def
    by (simp add: python_detected[simplified] python_config[simplified] parses_to_def
        nested_python_captures l[simplified])
  show ?thesis using 1 2 by simp
qed

text \<open>
  A Ruby method in a class: the name of the method is in the signature, like the name of
  the class. Neither \<open>method\<close> nor \<open>class\<close> is a type that the walk up from a name stops
  at, so for both names it ends at the class, below \<open>program\<close>: the signature of lines
  has the line of the class, once, and no line of the method.
\<close>

lemma ruby_method_in_class_signature:
  "captures ruby_query ruby_method_in_class = [[0, 0], [0, 1, 0, 0]]
   \<and> enclosing_declaration ruby_method_in_class [0, 0] = [0]
   \<and> enclosing_declaration ruby_method_in_class [0, 1, 0, 0] = [0]
   \<and> extractSignature (parses_to ruby_method_in_class) (js ''a.rb'') (node_text ruby_method_in_class)
     = Some (js ''a.rb | A | f'')
   \<and> extractSignatureLines (parses_to ruby_method_in_class) (js ''a.rb'') (node_text ruby_method_in_class)
     = Some (js ''a.rb | class A'')"
proof -
  have c: "captures ruby_query ruby_method_in_class = [[0, 0], [0, 1, 0, 0]]"
    by (simp add: sig_eval ruby_query_def ruby_method_in_class_def)
  have d: "detectLanguage (js ''a.rb'') = Some (js ''ruby'')"
    by (simp add: sig_eval)
  have g: "map_of LANGUAGES (js ''ruby'')
      = Some \<lparr>query = ruby_query, wasmFile = js ''tree-sitter-ruby.wasm''\<rparr>"
    by (simp add: LANGUAGES_def)
  have t: "map (text_at ruby_method_in_class) [[0, 0], [0, 1, 0, 0]] = [js ''A'', js ''f'']"
    by (simp add: text_at_def ruby_method_in_class_def)
  have n: "collect_names [js ''A'', js ''f''] [] [] = [js ''A'', js ''f'']"
    by (simp add: trim_def is_ws_def)
  have 1: "extractSignature (parses_to ruby_method_in_class) (js ''a.rb'') (node_text ruby_method_in_class)
     = Some (js ''a.rb | A | f'')"
    unfolding extractSignature_def
    by (simp add: d[simplified] g[simplified] parses_to_def c t[simplified] n[simplified])
  have l: "collect_lines ruby_method_in_class [[0, 0], [0, 1, 0, 0]] [] [] = [js ''class A'']"
    by (simp add: sig_eval ruby_method_in_class_def)
  have 2: "extractSignatureLines (parses_to ruby_method_in_class) (js ''a.rb'') (node_text ruby_method_in_class)
     = Some (js ''a.rb | class A'')"
    unfolding extractSignatureLines_def
    by (simp add: d[simplified] g[simplified] parses_to_def c l[simplified])
  have e: "enclosing_declaration ruby_method_in_class [0, 0] = [0]"
    "enclosing_declaration ruby_method_in_class [0, 1, 0, 0] = [0]"
    by (simp_all add: enclosing_declaration_def walk_stops_def declaration_type_def
        str_includes_sublist[symmetric] type_at_def ruby_method_in_class_def)
  show ?thesis using c e 1 2 by simp
qed

text \<open>
  C4, amended. A pattern of the language's query that matches at a node of the tree, at
  whatever depth, contributes its capture: the captured node is among the captures and
  its trimmed text (when not empty) among the names of the signature that
  \<open>extractSignature\<close> returns. In the signature that \<open>extractSignatureLines\<close> returns,
  the capture stands for the first line of its enclosing declaration node, which (when
  not empty) is among the lines; when the type of the captured node's parent names a
  declaration, this is the first line of the parent.
\<close>

theorem captures_at_any_depth:
  assumes "detectLanguage filePath = Some langKey"
    and "map_of LANGUAGES langKey = Some config"
    and "parse langKey content = Some rootNode"
    and "node_at rootNode pos = Some n"
    and "p \<in> set (query config)"
    and "rel \<in> set (match_at p n)"
  shows "pos @ rel \<in> set (captures (query config) rootNode)
    \<and> (trim (text_at rootNode (pos @ rel)) \<noteq> [] \<longrightarrow>
         (\<exists>names. trim (text_at rootNode (pos @ rel)) \<in> set names
            \<and> extractSignature parse filePath content
                = Some (filePath @ js '' | '' @ join (js '' | '') names)))
    \<and> (first_line (text_at rootNode (enclosing_declaration rootNode (pos @ rel))) \<noteq> [] \<longrightarrow>
         (\<exists>lines. first_line (text_at rootNode (enclosing_declaration rootNode (pos @ rel))) \<in> set lines
            \<and> extractSignatureLines parse filePath content
                = Some (filePath @ js '' | '' @ join (js '' | '') lines)))
    \<and> (declaration_type (type_at rootNode (butlast (pos @ rel))) \<longrightarrow>
         enclosing_declaration rootNode (pos @ rel) = butlast (pos @ rel))"
proof (intro conjI impI)
  let ?caps = "captures (query config) rootNode"
  let ?c = "pos @ rel"
  let ?d = "rev (findDeclarationAncestor rootNode (rev ?c))"
  let ?lines = "collect_lines rootNode ?caps [] []"
  have d: "?d = enclosing_declaration rootNode ?c" by (rule findDeclarationAncestor_enclosing)
  show cap: "?c \<in> set ?caps" using assms(4-6) by (rule captures_mem)
  {
    assume ne: "trim (text_at rootNode ?c) \<noteq> []"
    let ?names = "collect_names (map (text_at rootNode) ?caps) [] []"
    have m: "trim (text_at rootNode ?c) \<in> set ?names"
      unfolding collect_names_set using cap ne by auto
    then have "length ?names \<noteq> 0" by auto
    then have "extractSignature parse filePath content
        = Some (filePath @ js '' | '' @ join (js '' | '') ?names)"
      unfolding extractSignature_def using assms(1-3) by (simp add: Let_def)
    then show "\<exists>names. trim (text_at rootNode ?c) \<in> set names
            \<and> extractSignature parse filePath content
                = Some (filePath @ js '' | '' @ join (js '' | '') names)"
      using m by blast
  }
  {
    assume ne: "first_line (text_at rootNode (enclosing_declaration rootNode ?c)) \<noteq> []"
    have m: "first_line (text_at rootNode ?d) \<in> set ?lines"
      unfolding first_line_def using cap ne[folded d, unfolded first_line_def]
      by (intro collect_lines_has) simp_all
    then have "length ?lines \<noteq> 0" by auto
    then have "extractSignatureLines parse filePath content
        = Some (filePath @ js '' | '' @ join (js '' | '') ?lines)"
      unfolding extractSignatureLines_def using assms(1-3) by (simp add: Let_def)
    then show "\<exists>lines. first_line (text_at rootNode (enclosing_declaration rootNode ?c)) \<in> set lines
            \<and> extractSignatureLines parse filePath content
                = Some (filePath @ js '' | '' @ join (js '' | '') lines)"
      using m unfolding d by blast
  }
  {
    assume "declaration_type (type_at rootNode (butlast ?c))"
    then have "?d = butlast ?c" by (rule parent_of_declaration_type)
    then show "enclosing_declaration rootNode ?c = butlast ?c" unfolding d .
  }
qed

theorem captures_at_any_depth_witness:
  "detectLanguage (js ''a.py'') = Some (js ''python'')
   \<and> map_of LANGUAGES (js ''python'')
       = Some \<lparr>query = python_query, wasmFile = js ''tree-sitter-python.wasm''\<rparr>
   \<and> parses_to nested_python (js ''python'') (node_text nested_python) = Some nested_python
   \<and> node_at nested_python [0, 2, 0] = Some inner_function
   \<and> named ''function_definition'' ''name'' ''identifier'' \<in> set python_query
   \<and> [0] \<in> set (match_at (named ''function_definition'' ''name'' ''identifier'') inner_function)
   \<and> [0, 2, 0, 0] \<in> set (captures python_query nested_python)
   \<and> (\<exists>names. js ''inner'' \<in> set names
         \<and> extractSignature (parses_to nested_python) (js ''a.py'') (node_text nested_python)
             = Some (js ''a.py'' @ js '' | '' @ join (js '' | '') names))
   \<and> declaration_type (type_at nested_python [0, 2, 0])
   \<and> enclosing_declaration nested_python [0, 2, 0, 0] = [0, 2, 0]
   \<and> first_line (text_at nested_python [0, 2, 0]) = js ''def inner():''
   \<and> (\<exists>lines. js ''def inner():'' \<in> set lines
         \<and> extractSignatureLines (parses_to nested_python) (js ''a.py'') (node_text nested_python)
             = Some (js ''a.py'' @ js '' | '' @ join (js '' | '') lines))"
proof -
  let ?p = "named ''function_definition'' ''name'' ''identifier''"
  let ?cfg = "\<lparr>query = python_query, wasmFile = js ''tree-sitter-python.wasm''\<rparr>"
  have h3: "parses_to nested_python (js ''python'') (node_text nested_python) = Some nested_python"
    by (simp add: parses_to_def)
  have h4: "node_at nested_python [0, 2, 0] = Some inner_function"
    by (simp add: nested_python_def)
  have h5: "?p \<in> set (query ?cfg)" by (simp add: python_query_def)
  have h6: "[0] \<in> set (match_at ?p inner_function)"
    by (simp add: named_def inner_function_def)
  have a: "[0, 2, 0] @ [0 :: nat] = [0, 2, 0, 0]" and b: "butlast [0, 2, 0, 0 :: nat] = [0, 2, 0]"
    by simp_all
  have t: "trim (text_at nested_python [0, 2, 0, 0]) = js ''inner''"
    by (simp add: text_at_def nested_python_def inner_function_def trim_def is_ws_def)
  have ty: "declaration_type (type_at nested_python [0, 2, 0])"
    by (simp add: declaration_type_def str_includes_sublist[symmetric] type_at_def
        nested_python_def inner_function_def)
  have d: "first_line (text_at nested_python [0, 2, 0]) = js ''def inner():''"
    by (simp add: first_line_def sig_eval nested_python_def inner_function_def)
  note r = captures_at_any_depth[where parse = "parses_to nested_python"
      and content = "node_text nested_python", OF python_detected python_config h3 h4 h5 h6,
      unfolded a b]
  have e: "enclosing_declaration nested_python [0, 2, 0, 0] = [0, 2, 0]"
    using r ty by blast
  have ne1: "trim (text_at nested_python [0, 2, 0, 0]) \<noteq> []" unfolding t by simp
  have ne2: "first_line (text_at nested_python (enclosing_declaration nested_python [0, 2, 0, 0])) \<noteq> []"
    unfolding e d by simp
  have c1: "[0, 2, 0, 0] \<in> set (captures python_query nested_python)"
    using r by simp
  have c2: "\<exists>names. js ''inner'' \<in> set names
         \<and> extractSignature (parses_to nested_python) (js ''a.py'') (node_text nested_python)
             = Some (js ''a.py'' @ js '' | '' @ join (js '' | '') names)"
    using r ne1 unfolding t by blast
  have c3: "\<exists>lines. js ''def inner():'' \<in> set lines
         \<and> extractSignatureLines (parses_to nested_python) (js ''a.py'') (node_text nested_python)
             = Some (js ''a.py'' @ js '' | '' @ join (js '' | '') lines)"
    using r ne2 unfolding e d by blast
  have h5': "?p \<in> set python_query" using h5 by simp
  show ?thesis
    using python_detected python_config h3 h4 h5' h6 c1 c2 c3 ty d e by blast
qed

end
